theory Spec2Isabelle
  imports Main "HOL-Library.Sublist" "HOL-Library.AList"
begin

section \<open>Process outcomes\<close>

text \<open>
  Every fallible function of the harness returns \<open>error + 'a\<close>.  \<open>Err msg\<close> is a Go
  \<^verbatim>\<open>error\<close> value handed back to the caller.  \<open>ProcessExit\<close> is the end of the whole
  process: the harness reports its failures with \<^verbatim>\<open>logger.Fatalf\<close>, and Go's
  \<^verbatim>\<open>(*log.Logger).Fatalf\<close> prints the message and then calls \<^verbatim>\<open>os.Exit(1)\<close>, so no statement
  after it runs.
\<close>

datatype error = ProcessExit | Err string

definition Fatalf :: "error + 'a" where
  "Fatalf = Inl ProcessExit"

section \<open>Strings and formatting\<close>

text \<open>Go strings are byte sequences; \<open>string\<close> is a list of 8-bit characters.\<close>

definition lineDelimiter :: string where
  "lineDelimiter = [CHR 0x0A]"

definition IncidentExtension :: string where
  "IncidentExtension = ''.incident''"

text \<open>The verb \<^verbatim>\<open>%d\<close> of \<^verbatim>\<open>fmt.Sprintf\<close>: decimal digits, with a minus sign for a negative value.\<close>

fun Sprintf_digits :: "nat \<Rightarrow> string" where
  "Sprintf_digits n =
     (if n < 10 then [''0123456789'' ! n]
      else Sprintf_digits (n div 10) @ [''0123456789'' ! (n mod 10)])"

declare Sprintf_digits.simps [simp del]

definition Sprintf_d :: "int \<Rightarrow> string" where
  "Sprintf_d i = (if i < 0 then ''-'' @ Sprintf_digits (nat (- i)) else Sprintf_digits (nat i))"

text \<open>
  \<^verbatim>\<open>strings.Index(s, substr)\<close>: the index of the first occurrence of \<open>substr\<close> in \<open>s\<close>,
  or \<open>-1\<close> when there is none.
\<close>

fun strings_Index :: "string \<Rightarrow> string \<Rightarrow> int" where
  "strings_Index [] substr = (if substr = [] then 0 else - 1)"
| "strings_Index (c # s) substr =
     (if prefix substr (c # s) then 0
      else (let r = strings_Index s substr in if r = - 1 then - 1 else r + 1))"

section \<open>The data model of \<^verbatim>\<open>testcase.go\<close>\<close>

text \<open>
  A value of Go type \<^verbatim>\<open>interface{}\<close> as the YAML decoder builds it for the field
  \<^verbatim>\<open>Variables\<close>: nothing, a boolean, an integer, a floating-point number (mantissa and
  binary exponent), a string, a sequence or a mapping.  The harness carries such a value
  along and never looks into it.
\<close>

datatype yaml_node =
    YNull
  | YBool bool
  | YInt int
  | YFloat int int
  | YStr string
  | YSeq "yaml_node list"
  | YMap "(string \<times> yaml_node) list"

text \<open>
  The entry \<^verbatim>\<open>lineNumber\<close> of an incident as it stands in the file.  The decoder is the
  library \<^verbatim>\<open>gopkg.in/yaml.v3\<close>, which is not part of the repository, so the entry is given
  by what that library makes of it for a field of Go type \<^verbatim>\<open>int\<close>, in three classes:
  \<^item> \<open>NoLineNumber\<close>: there is no entry, or it is null; the field keeps Go's zero value;
  \<^item> \<open>IntLine n\<close>: the entry is a number that the library stores into the field, and \<open>n\<close>
    is the value stored (the integer itself; of a floating-point number, what the conversion
    to \<^verbatim>\<open>int64\<close> keeps of it);
  \<^item> \<open>NotIntLine text\<close>: the entry, written \<open>text\<close>, is one that the library refuses
    for such a field with a type error: a word such as \<^verbatim>\<open>ten\<close>, a quoted string, a boolean,
    a sequence, a mapping.
  Which texts fall into which class is the library's matter and is not decided here.
\<close>

datatype lineNumber_node =
    NoLineNumber
  | IntLine int
  | NotIntLine string

text \<open>
  \<^verbatim>\<open>Incident\<close>, \<^verbatim>\<open>Violation\<close> and \<^verbatim>\<open>RuleSet\<close>.  The type parameter is the type of the
  field \<^verbatim>\<open>LineNumber\<close>: \<open>int Incident\<close> is the struct of \<^verbatim>\<open>testcase.go\<close>, where the field is
  an \<^verbatim>\<open>int\<close>, and \<open>lineNumber_node Incident\<close> is the incident as it stands in the file,
  before the decoder has filled that field.

  A Go map is an association list with one entry per key.  A lookup is \<open>map_of\<close>, an
  assignment \<^verbatim>\<open>m[k] = v\<close> is \<open>AList.update\<close>.  Go leaves the order of a \<^verbatim>\<open>range\<close> loop
  over a map unspecified and chooses it anew for every loop.  For a map that is read from a
  file or handed in (the violations of a rule-set, the two sets that are compared, the counts
  of the projects), the order of the list is the order in which the loop over it visits it
  in the run at hand, and what is proved holds for every list.  For a map that the harness
  has built and then writes out entry by entry (the details of a comparison, the rules of a
  summary table), the order of that loop is given apart from the list, as any rearrangement
  of it.
  \<open>None\<close> is the \<^verbatim>\<open>nil\<close> map of a rule-set without a \<^verbatim>\<open>violations\<close> entry.
\<close>

record 'ln Incident =
  Uri :: string
  Message :: string
  CodeSnip :: string
  Variables :: yaml_node
  LineNumber :: 'ln

record 'ln Violation =
  Incidents :: "'ln Incident list"

record 'ln RuleSet =
  Name :: string
  Violations :: "(string \<times> 'ln Violation) list option"

record ValidateIncident =
  RuleSet :: string
  Rule :: string
  Uri :: string
  Message :: string
  CodeSnip :: string
  Variables :: yaml_node
  LineNumber :: int

section \<open>Reading \<^verbatim>\<open>output.yaml\<close>\<close>

text \<open>
  What \<^verbatim>\<open>os.Stat\<close>, \<^verbatim>\<open>os.ReadFile\<close> and \<^verbatim>\<open>yaml.Unmarshal\<close> can find at
  \<^verbatim>\<open>output.yaml\<close>: no file, a file that cannot be read, bytes that are not a YAML list of
  rule-sets, or such a list.
\<close>

datatype file_state =
    Absent
  | Unreadable
  | NotRuleSets
  | Content "lineNumber_node RuleSet list"

text \<open>
  \<^verbatim>\<open>yaml.Unmarshal\<close> into \<^verbatim>\<open>[]RuleSet\<close>, as far as the harness depends on it: the field
  \<^verbatim>\<open>LineNumber\<close> of every incident is filled according to the class of its entry, and one
  entry of the third class makes the whole call return an error.  The other fields of an
  incident are taken as the decoder delivers them, and every other way in which a file fails
  to be a list of rule-sets is the state \<open>NotRuleSets\<close>.
\<close>

fun decode_int :: "lineNumber_node \<Rightarrow> int option" where
  "decode_int NoLineNumber = Some 0"
| "decode_int (IntLine n) = Some n"
| "decode_int (NotIntLine text) = None"

definition decode_Incident :: "lineNumber_node Incident \<Rightarrow> int Incident option" where
  "decode_Incident r =
     map_option
       (\<lambda>n. \<lparr>Incident.Uri = Incident.Uri r, Incident.Message = Incident.Message r,
              Incident.CodeSnip = Incident.CodeSnip r, Incident.Variables = Incident.Variables r,
              Incident.LineNumber = n\<rparr>)
       (decode_int (Incident.LineNumber r))"

fun decode_Incidents :: "lineNumber_node Incident list \<Rightarrow> int Incident list option" where
  "decode_Incidents [] = Some []"
| "decode_Incidents (r # rs) =
     (case decode_Incident r of
        None \<Rightarrow> None
      | Some i \<Rightarrow> map_option ((#) i) (decode_Incidents rs))"

definition decode_Violation :: "lineNumber_node Violation \<Rightarrow> int Violation option" where
  "decode_Violation v = map_option (\<lambda>is. \<lparr>Incidents = is\<rparr>) (decode_Incidents (Incidents v))"

fun decode_Violations ::
  "(string \<times> lineNumber_node Violation) list \<Rightarrow> (string \<times> int Violation) list option" where
  "decode_Violations [] = Some []"
| "decode_Violations ((ruleName, v) # vs) =
     (case decode_Violation v of
        None \<Rightarrow> None
      | Some v' \<Rightarrow> map_option ((#) (ruleName, v')) (decode_Violations vs))"

definition decode_RuleSet :: "lineNumber_node RuleSet \<Rightarrow> int RuleSet option" where
  "decode_RuleSet s =
     (case Violations s of
        None \<Rightarrow> Some \<lparr>RuleSet.Name = RuleSet.Name s, Violations = None\<rparr>
      | Some vs \<Rightarrow> map_option (\<lambda>vs'. \<lparr>RuleSet.Name = RuleSet.Name s, Violations = Some vs'\<rparr>) (decode_Violations vs))"

fun yaml_Unmarshal :: "lineNumber_node RuleSet list \<Rightarrow> int RuleSet list option" where
  "yaml_Unmarshal [] = Some []"
| "yaml_Unmarshal (s # ss) =
     (case decode_RuleSet s of
        None \<Rightarrow> None
      | Some s' \<Rightarrow> map_option ((#) s') (yaml_Unmarshal ss))"

section \<open>The incident key\<close>

text \<open>
  Lines 310 to 316 of \<^verbatim>\<open>ParseAppCatOutput\<close>: \<open>tempPath\<close> is the location cut at the first
  occurrence of the project name, and the key is
  \<^verbatim>\<open>fmt.Sprintf("%s-%s-%s-%d", RuleSet, Rule, tempPath, LineNumber)\<close>.
\<close>

definition tempPath :: "string \<Rightarrow> string \<Rightarrow> string" where
  "tempPath tc_Name uri =
     (let startIndex = strings_Index uri tc_Name
      in if startIndex \<noteq> - 1 then drop (nat startIndex) uri else uri)"

definition incident_key :: "string \<Rightarrow> ValidateIncident \<Rightarrow> string" where
  "incident_key tc_Name vIncident =
     ValidateIncident.RuleSet vIncident @ ''-'' @ ValidateIncident.Rule vIncident @ ''-''
       @ tempPath tc_Name (ValidateIncident.Uri vIncident) @ ''-''
       @ Sprintf_d (ValidateIncident.LineNumber vIncident)"

section \<open>Test cases and their surroundings\<close>

type_synonym ActionType = string

definition ActionRun :: ActionType where
  "ActionRun = ''run''"

definition ActionAnalyze :: ActionType where
  "ActionAnalyze = ''analyze''"

definition ActionValidate :: ActionType where
  "ActionValidate = ''validate''"

fun containsAction :: "ActionType list \<Rightarrow> ActionType \<Rightarrow> bool" where
  "containsAction [] item = False"
| "containsAction (v # slice) item = (if v = item then True else containsAction slice item)"

record TestCase =
  Name :: string
  ApplicationFolder :: string
  ProjectFolder :: string
  OutputFolder :: string
  BaseLineFolder :: string
  ActionList :: "ActionType list"

text \<open>
  What the harness finds outside itself.  By path: whether \<^verbatim>\<open>os.Stat\<close> finds a folder,
  whether \<^verbatim>\<open>os.MkdirAll\<close>, the analyzer run on a project folder, \<^verbatim>\<open>os.WriteFile\<close> (folder and
  file name) and \<^verbatim>\<open>os.Create\<close> succeed, and the state of \<^verbatim>\<open>output.yaml\<close> in a folder at
  the time it is read.  Of the platform: \<^verbatim>\<open>filepath.Join\<close> of two elements, whose separator
  and whose final \<^verbatim>\<open>Clean\<close> are the platform's.  Of the run: \<open>range_order w m\<close> is the
  list of the entries of the map \<open>m\<close> in the order in which the \<^verbatim>\<open>range\<close> loop of \<^verbatim>\<open>Run\<close>
  visits them; Go chooses that order anew in every run.
\<close>

record world =
  Stat_exists :: "string \<Rightarrow> bool"
  MkdirAll_ok :: "string \<Rightarrow> bool"
  cmd_Run_ok :: "string \<Rightarrow> bool"
  WriteFile_ok :: "string \<Rightarrow> string \<Rightarrow> bool"
  Create_ok :: "string \<Rightarrow> bool"
  output_yaml :: "string \<Rightarrow> file_state"
  filepath_Join :: "string \<Rightarrow> string \<Rightarrow> string"
  range_order :: "(string \<times> string) list \<Rightarrow> (string \<times> string) list"

text \<open>
  A \<^verbatim>\<open>range\<close> loop over a map visits every entry once: the list of the entries visited has
  the entries of the map and its length.  (The entries of a map are pairwise different, so
  this makes the list a rearrangement of the map.)
\<close>

definition ranges :: "'a list \<Rightarrow> 'a list \<Rightarrow> bool" where
  "ranges visited m \<longleftrightarrow> set visited = set m \<and> length visited = length m"

definition getAppcatOutputFolder :: "TestCase \<Rightarrow> world \<Rightarrow> string" where
  "getAppcatOutputFolder tc w = filepath_Join w (OutputFolder tc) ''appcat_output''"

definition getAnalysisOutputFolder :: "TestCase \<Rightarrow> world \<Rightarrow> string" where
  "getAnalysisOutputFolder tc w = filepath_Join w (OutputFolder tc) ''analysis_output''"

definition getIncidentsSummaryFile :: "TestCase \<Rightarrow> world \<Rightarrow> string" where
  "getIncidentsSummaryFile tc w =
     filepath_Join w (getAnalysisOutputFolder tc w) (''incidents_summary'' @ ''.csv'')"

section \<open>\<^verbatim>\<open>ParseAppCatOutput\<close>\<close>

text \<open>
  The three results of the parser and the keys it reports through
  \<^verbatim>\<open>"[ParseOutput] Duplicate incident found in baseline: %s"\<close>, in the order logged.  The
  counters are Go \<^verbatim>\<open>int\<close>s that count the incidents of a document held in memory; they are
  natural numbers here.
\<close>

record parse_state =
  incidentsCount :: nat
  ruleIncidentDetails :: "(string \<times> nat) list"
  incidentsDetails :: "(string \<times> ValidateIncident) list"
  duplicates_logged :: "string list"

definition parse_init :: parse_state where
  "parse_init =
     \<lparr>incidentsCount = 0, ruleIncidentDetails = [], incidentsDetails = [], duplicates_logged = []\<rparr>"

text \<open>\<^verbatim>\<open>ruleIncidentDetails[ruleName]++\<close>: a missing key reads as 0.\<close>

definition increment :: "string \<Rightarrow> (string \<times> nat) list \<Rightarrow> (string \<times> nat) list" where
  "increment ruleName m =
     AList.update ruleName ((case map_of m ruleName of None \<Rightarrow> 0 | Some c \<Rightarrow> c) + 1) m"

definition vIncident_of :: "string \<Rightarrow> string \<Rightarrow> int Incident \<Rightarrow> ValidateIncident" where
  "vIncident_of rulesetName ruleName incident =
     \<lparr>ValidateIncident.RuleSet = rulesetName, ValidateIncident.Rule = ruleName,
      ValidateIncident.Uri = Incident.Uri incident,
      ValidateIncident.Message = Incident.Message incident,
      ValidateIncident.CodeSnip = Incident.CodeSnip incident,
      ValidateIncident.Variables = Incident.Variables incident,
      ValidateIncident.LineNumber = Incident.LineNumber incident\<rparr>"

text \<open>Lines 297 to 322: the counters, the record, its key, and the insertion.\<close>

definition record_incident ::
  "string \<Rightarrow> string \<Rightarrow> string \<Rightarrow> int Incident \<Rightarrow> parse_state \<Rightarrow> parse_state" where
  "record_incident tc_Name rulesetName ruleName incident st =
     (let st1 = st\<lparr>incidentsCount := incidentsCount st + 1,
                   ruleIncidentDetails := increment ruleName (ruleIncidentDetails st)\<rparr>;
          vIncident = vIncident_of rulesetName ruleName incident;
          key = incident_key tc_Name vIncident
      in if map_of (incidentsDetails st1) key = None
         then st1\<lparr>incidentsDetails := AList.update key vIncident (incidentsDetails st1)\<rparr>
         else st1\<lparr>duplicates_logged := duplicates_logged st1 @ [key]\<rparr>)"

text \<open>
  Lines 324 to 332: with a non-empty \<open>presistPath\<close> the incident is written to
  \<^verbatim>\<open><ruleName>_<i>.incident\<close>; a failed write is fatal.
\<close>

definition persist_incident :: "world \<Rightarrow> string \<Rightarrow> string \<Rightarrow> nat \<Rightarrow> error + unit" where
  "persist_incident w presistPath ruleName i =
     (if presistPath \<noteq> [] then
        (let incidentFileName = ruleName @ ''_'' @ Sprintf_d (int i) @ IncidentExtension
         in if WriteFile_ok w presistPath incidentFileName then Inr () else Fatalf)
      else Inr ())"

fun incidents_loop ::
  "string \<Rightarrow> world \<Rightarrow> string \<Rightarrow> string \<Rightarrow> string \<Rightarrow> nat \<Rightarrow>
   int Incident list \<Rightarrow> parse_state \<Rightarrow> error + parse_state" where
  "incidents_loop tc_Name w presistPath rulesetName ruleName i [] st = Inr st"
| "incidents_loop tc_Name w presistPath rulesetName ruleName i (incident # rest) st =
     (let st' = record_incident tc_Name rulesetName ruleName incident st
      in case persist_incident w presistPath ruleName i of
           Inl e \<Rightarrow> Inl e
         | Inr _ \<Rightarrow> incidents_loop tc_Name w presistPath rulesetName ruleName (i + 1) rest st')"

fun violations_loop ::
  "string \<Rightarrow> world \<Rightarrow> string \<Rightarrow> string \<Rightarrow>
   (string \<times> int Violation) list \<Rightarrow> parse_state \<Rightarrow> error + parse_state" where
  "violations_loop tc_Name w presistPath rulesetName [] st = Inr st"
| "violations_loop tc_Name w presistPath rulesetName ((ruleName, violation) # rest) st =
     (case (if length (Incidents violation) > 0
            then incidents_loop tc_Name w presistPath rulesetName ruleName 0 (Incidents violation) st
            else Inr st) of
        Inl e \<Rightarrow> Inl e
      | Inr st' \<Rightarrow> violations_loop tc_Name w presistPath rulesetName rest st')"

fun rulesets_loop ::
  "string \<Rightarrow> world \<Rightarrow> string \<Rightarrow> int RuleSet list \<Rightarrow> parse_state \<Rightarrow>
   error + parse_state" where
  "rulesets_loop tc_Name w presistPath [] st = Inr st"
| "rulesets_loop tc_Name w presistPath (section # rest) st =
     (case (case Violations section of
              Some violations \<Rightarrow> violations_loop tc_Name w presistPath (RuleSet.Name section) violations st
            | None \<Rightarrow> Inr st) of
        Inl e \<Rightarrow> Inl e
      | Inr st' \<Rightarrow> rulesets_loop tc_Name w presistPath rest st')"

text \<open>
  The whole function.  Each of the three failures is reported with \<^verbatim>\<open>logger.Fatalf\<close>; the
  \<^verbatim>\<open>return\<close> with an error value that follows the first one is never reached.
\<close>

definition ParseAppCatOutput :: "TestCase \<Rightarrow> world \<Rightarrow> string \<Rightarrow> string \<Rightarrow> error + parse_state" where
  "ParseAppCatOutput tc w outputPath presistPath =
     (case output_yaml w outputPath of
        Absent \<Rightarrow> Fatalf
      | Unreadable \<Rightarrow> Fatalf
      | NotRuleSets \<Rightarrow> Fatalf
      | Content raw \<Rightarrow>
          (case yaml_Unmarshal raw of
             None \<Rightarrow> Fatalf
           | Some yamlContent \<Rightarrow>
               rulesets_loop (TestCase.Name tc) w presistPath yamlContent parse_init))"

section \<open>\<^verbatim>\<open>RunValidate\<close>\<close>

text \<open>The three detail lines, each a \<^verbatim>\<open>fmt.Sprintf\<close> of lines 373, 379 and 390.\<close>

definition detail_NEW :: "string \<Rightarrow> string" where
  "detail_NEW key = ''[NEW] : '' @ key"

definition detail_WRONG :: "string \<Rightarrow> string \<Rightarrow> string \<Rightarrow> string" where
  "detail_WRONG key message baselineMessage =
     ''[WRONG] :'' @ key @ '' message mismatch: '' @ message @ '' != '' @ baselineMessage"

definition detail_MISS :: "string \<Rightarrow> string" where
  "detail_MISS key = ''[MISS]: '' @ key"

record validate_state =
  result :: bool
  resultDetails :: "(string \<times> string) list"

text \<open>The body of the first loop (lines 368 to 384), for one entry of \<open>incidents\<close>.\<close>

definition check_incident ::
  "(string \<times> ValidateIncident) list \<Rightarrow> string \<times> ValidateIncident \<Rightarrow> validate_state \<Rightarrow>
   validate_state" where
  "check_incident baselineIncidents entry st =
     (case entry of (key, incident) \<Rightarrow>
        (case map_of baselineIncidents key of
           None \<Rightarrow>
             \<lparr>result = False,
              resultDetails = AList.update key (detail_NEW key) (resultDetails st)\<rparr>
         | Some baselineIncident \<Rightarrow>
             if ValidateIncident.Message incident \<noteq> ValidateIncident.Message baselineIncident
             then \<lparr>result = False,
                   resultDetails =
                     AList.update key
                       (detail_WRONG key (ValidateIncident.Message incident)
                          (ValidateIncident.Message baselineIncident))
                       (resultDetails st)\<rparr>
             else st))"

text \<open>The body of the second loop (lines 386 to 393), for one entry of \<open>baselineIncidents\<close>.\<close>

definition check_baseline ::
  "(string \<times> ValidateIncident) list \<Rightarrow> string \<times> ValidateIncident \<Rightarrow> validate_state \<Rightarrow>
   validate_state" where
  "check_baseline incidents entry st =
     (case entry of (key, baselineIncident) \<Rightarrow>
        if map_of incidents key = None
        then \<lparr>result = False,
              resultDetails = AList.update key (detail_MISS key) (resultDetails st)\<rparr>
        else st)"

text \<open>Lines 365 to 396: both loops, from \<open>result = true\<close> and an empty \<open>resultDetails\<close>.\<close>

definition compare_incidents ::
  "(string \<times> ValidateIncident) list \<Rightarrow> (string \<times> ValidateIncident) list \<Rightarrow> validate_state" where
  "compare_incidents incidents baselineIncidents =
     fold (check_baseline incidents) baselineIncidents
       (fold (check_incident baselineIncidents) incidents
          \<lparr>result = True, resultDetails = []\<rparr>)"

text \<open>
  \<^verbatim>\<open>RunValidate\<close> parses the baseline and then the current output, both without persistence,
  and compares them.  An error value from the parser would be reported with
  \<^verbatim>\<open>logger.Fatalf\<close> as well.
\<close>

definition RunValidate :: "TestCase \<Rightarrow> world \<Rightarrow> error + validate_state" where
  "RunValidate tc w =
     (case ParseAppCatOutput tc w (BaseLineFolder tc) [] of
        Inl ProcessExit \<Rightarrow> Inl ProcessExit
      | Inl (Err e) \<Rightarrow> Fatalf
      | Inr baseline \<Rightarrow>
          (case ParseAppCatOutput tc w (getAppcatOutputFolder tc w) [] of
             Inl ProcessExit \<Rightarrow> Inl ProcessExit
           | Inl (Err e) \<Rightarrow> Fatalf
           | Inr current \<Rightarrow>
               Inr (compare_incidents (incidentsDetails current) (incidentsDetails baseline))))"

section \<open>\<^verbatim>\<open>RunAppCat\<close>, \<^verbatim>\<open>RunAnalyze\<close> and \<^verbatim>\<open>Run\<close>\<close>

definition RunAppCat :: "TestCase \<Rightarrow> world \<Rightarrow> error + string" where
  "RunAppCat tc w =
     (if \<not> Stat_exists w (ProjectFolder tc) then Fatalf
      else if \<not> Stat_exists w (getAppcatOutputFolder tc w) \<and> \<not> MkdirAll_ok w (getAppcatOutputFolder tc w)
      then Fatalf
      else if \<not> cmd_Run_ok w (ProjectFolder tc) then Fatalf
      else Inr (OutputFolder tc))"

definition RunAnalyze :: "TestCase \<Rightarrow> world \<Rightarrow> error + nat \<times> (string \<times> nat) list" where
  "RunAnalyze tc w =
     (if \<not> Stat_exists w (getAnalysisOutputFolder tc w) \<and> \<not> MkdirAll_ok w (getAnalysisOutputFolder tc w)
      then Fatalf
      else if output_yaml w (getAppcatOutputFolder tc w) = Absent then Fatalf
      else
        (case ParseAppCatOutput tc w (getAppcatOutputFolder tc w) (getAnalysisOutputFolder tc w) of
           Inl ProcessExit \<Rightarrow> Inl ProcessExit
         | Inl (Err e) \<Rightarrow> Fatalf
         | Inr st \<Rightarrow>
             if \<not> Create_ok w (getIncidentsSummaryFile tc w) then Fatalf
             else Inr (incidentsCount st, ruleIncidentDetails st)))"

text \<open>The formats \<^verbatim>\<open>ItemResultFormat.PASS\<close>, \<^verbatim>\<open>.FAIL\<close> and \<^verbatim>\<open>.DETAILS\<close>, applied.\<close>

definition ItemResultFormat_PASS :: "string \<Rightarrow> string" where
  "ItemResultFormat_PASS name = ''- [x]'' @ '' <b>'' @ name @ ''</b>.''"

definition ItemResultFormat_FAIL :: "string \<Rightarrow> string \<Rightarrow> string" where
  "ItemResultFormat_FAIL name details =
     ''- [ ] :x:'' @ '' <b>'' @ name @ ''</b>. '' @ [CHR 0x0A, CHR 0x0A] @ details @ [CHR 0x0A]"

definition ItemResultFormat_DETAILS :: "string \<Rightarrow> string" where
  "ItemResultFormat_DETAILS details =
     ''  <details>'' @ [CHR 0x0A] @ ''  <summary> Details </summary>'' @ [CHR 0x0A, CHR 0x0A]
       @ ''  '' @ details @ [CHR 0x0A, CHR 0x0A] @ ''</details>''"

text \<open>
  Lines 148 to 158 of \<^verbatim>\<open>Run\<close>: the message built from the map \<open>caseResults\<close>, where
  \<open>visited\<close> lists its entries in the order in which the loop of line 153 visits them.
\<close>

definition resultMessage ::
  "string \<Rightarrow> (string \<times> string) list \<Rightarrow> (string \<times> string) list \<Rightarrow> string" where
  "resultMessage tc_Name caseResults visited =
     (if length caseResults = 0 then ItemResultFormat_PASS tc_Name
      else
        (let details = fold (\<lambda>(key, value) details. details @ value @ lineDelimiter) visited []
         in ItemResultFormat_FAIL tc_Name (ItemResultFormat_DETAILS details)))"

definition Run :: "TestCase \<Rightarrow> world \<Rightarrow> error + string" where
  "Run tc w =
     (case (if containsAction (ActionList tc) ActionRun then RunAppCat tc w else Inr []) of
        Inl ProcessExit \<Rightarrow> Inl ProcessExit
      | Inl (Err e) \<Rightarrow>
          Inl (Err (''error running AppCat for project '' @ TestCase.Name tc @ '': '' @ e))
      | Inr _ \<Rightarrow>
          (case (if containsAction (ActionList tc) ActionAnalyze
                 then RunAnalyze tc w else Inr (0, [])) of
             Inl ProcessExit \<Rightarrow> Inl ProcessExit
           | Inl (Err e) \<Rightarrow>
               Inl (Err (''error analyzing output for project '' @ TestCase.Name tc @ '': '' @ e))
           | Inr _ \<Rightarrow>
               if containsAction (ActionList tc) ActionValidate then
                 (case RunValidate tc w of
                    Inl ProcessExit \<Rightarrow> Inl ProcessExit
                  | Inl (Err e) \<Rightarrow>
                      Inl (Err (''error validating output for project '' @ TestCase.Name tc
                                  @ '': '' @ e))
                  | Inr st \<Rightarrow>
                      Inr (resultMessage (TestCase.Name tc) (resultDetails st)
                             (range_order w (resultDetails st))))
               else Inr ''passed''))"

text \<open>
  The loop of \<^verbatim>\<open>main\<close> over the test cases, in the version of \<^verbatim>\<open>main\<close> that calls this
  \<^verbatim>\<open>Run\<close> (two results): the entry of a test case is first set to the
  error text when \<^verbatim>\<open>Run\<close> returns an error, and then to the result of \<^verbatim>\<open>Run\<close> in every
  case (the empty string beside an error).
\<close>

fun run_testCases ::
  "world \<Rightarrow> TestCase list \<Rightarrow> (string \<times> string) list \<Rightarrow> error + (string \<times> string) list" where
  "run_testCases w [] testResults = Inr testResults"
| "run_testCases w (testCase # rest) testResults =
     (case Run testCase w of
        Inl ProcessExit \<Rightarrow> Inl ProcessExit
      | Inl (Err caseErr) \<Rightarrow>
          run_testCases w rest
            (AList.update (TestCase.Name testCase) []
               (AList.update (TestCase.Name testCase) (''Error: '' @ caseErr) testResults))
      | Inr res \<Rightarrow> run_testCases w rest (AList.update (TestCase.Name testCase) res testResults))"

section \<open>The summary tables of \<^verbatim>\<open>main\<close>\<close>

text \<open>
  Both versions of \<^verbatim>\<open>main\<close> fill their tables in loops that range over maps and write one
  row per entry of a map.  As a map, a table filled this way does not depend on the order of
  those loops, and the association list below stands for it.  The rows are written in the
  order in which the last loop visits its map; that order is the parameter \<open>visit\<close>, which
  gives, for a map, the list of its entries as visited.  What is written to the summary file
  is the list of the strings passed to \<^verbatim>\<open>WriteString\<close>.
\<close>

fun strings_Join :: "string list \<Rightarrow> string \<Rightarrow> string" where
  "strings_Join [] sep = []"
| "strings_Join [e] sep = e"
| "strings_Join (e # es) sep = e @ sep @ strings_Join es sep"

subsection \<open>The earlier \<^verbatim>\<open>main\<close>, with \<open>globalRulesDetails\<close> keyed by rule and then by target\<close>

text \<open>
  Lines 166 to 173: one \<open>(rule, count)\<close> of the \<open>rulesDetails\<close> that \<^verbatim>\<open>AnalyzeOutput\<close>
  returned for \<open>target\<close> is stored at \<^verbatim>\<open>globalRulesDetails[rule][target]\<close>.
\<close>

definition store_count ::
  "string \<Rightarrow> string \<times> nat \<Rightarrow> (string \<times> (string \<times> nat) list) list \<Rightarrow>
   (string \<times> (string \<times> nat) list) list" where
  "store_count target entry globalRulesDetails =
     (case entry of (rule, count) \<Rightarrow>
        (let targetHash = (case map_of globalRulesDetails rule of None \<Rightarrow> [] | Some h \<Rightarrow> h)
         in AList.update rule (AList.update target count targetHash) globalRulesDetails))"

text \<open>
  The loop over \<open>targetList\<close>; \<open>analyzed\<close> pairs every target, in the order of
  \<open>targetList\<close>, with the \<open>rulesDetails\<close> returned for it.
\<close>

definition collect_globalRulesDetails ::
  "(string \<times> (string \<times> nat) list) list \<Rightarrow> (string \<times> (string \<times> nat) list) list" where
  "collect_globalRulesDetails analyzed =
     fold (\<lambda>(target, rulesDetails) globalRulesDetails.
             fold (store_count target) rulesDetails globalRulesDetails)
       analyzed []"

text \<open>Lines 200 to 210: the row of one rule.\<close>

definition global_rowValue :: "string list \<Rightarrow> string \<times> (string \<times> nat) list \<Rightarrow> string" where
  "global_rowValue targetList entry =
     (case entry of (rule, targetHash) \<Rightarrow>
        fold (\<lambda>target rowValue.
                (case map_of targetHash target of
                   Some count \<Rightarrow> rowValue @ '','' @ Sprintf_d (int count)
                 | None \<Rightarrow> rowValue @ '',0''))
          targetList rule)"

text \<open>Lines 198 to 210: the header and the rows.\<close>

definition global_summary ::
  "((string \<times> (string \<times> nat) list) list \<Rightarrow> (string \<times> (string \<times> nat) list) list) \<Rightarrow>
   string list \<Rightarrow> (string \<times> (string \<times> nat) list) list \<Rightarrow> string list" where
  "global_summary visit targetList globalRulesDetails =
     (''Rule,'' @ strings_Join targetList '','' @ [CHR 0x0A])
       # map (\<lambda>entry. global_rowValue targetList entry @ [CHR 0x0A]) (visit globalRulesDetails)"

subsection \<open>\<^verbatim>\<open>src/main.go\<close>, with \<open>fullIncidentDetails\<close> keyed by target and then by rule\<close>

text \<open>Lines 115 to 124: the rules of all targets, with their totals.\<close>

definition merge_rule :: "string \<times> nat \<Rightarrow> (string \<times> nat) list \<Rightarrow> (string \<times> nat) list" where
  "merge_rule entry rules =
     (case entry of (rule, count) \<Rightarrow>
        (case map_of rules rule of
           None \<Rightarrow> AList.update rule count rules
         | Some sofar \<Rightarrow> AList.update rule (sofar + count) rules))"

definition collect_rules :: "(string \<times> (string \<times> nat) list) list \<Rightarrow> (string \<times> nat) list" where
  "collect_rules fullIncidentDetails =
     fold (\<lambda>(target, targetHash) rules. fold merge_rule targetHash rules) fullIncidentDetails []"

text \<open>Lines 135 to 148: the row of one rule.\<close>

definition full_rowValue ::
  "string list \<Rightarrow> (string \<times> (string \<times> nat) list) list \<Rightarrow> string \<Rightarrow> string" where
  "full_rowValue targetList fullIncidentDetails rule =
     fold (\<lambda>target rowValue.
             (case map_of fullIncidentDetails target of
                Some targetHash \<Rightarrow>
                  (case map_of targetHash rule of
                     Some count \<Rightarrow> rowValue @ '','' @ Sprintf_d (int count)
                   | None \<Rightarrow> rowValue @ '', '')
              | None \<Rightarrow> rowValue @ '', ''))
       targetList rule"

text \<open>Lines 112 to 149: the table is written only when some incident was counted.\<close>

definition full_summary ::
  "((string \<times> nat) list \<Rightarrow> (string \<times> nat) list) \<Rightarrow> int \<Rightarrow> string list \<Rightarrow>
   (string \<times> (string \<times> nat) list) list \<Rightarrow> string list option" where
  "full_summary visit fullIncidentsCount targetList fullIncidentDetails =
     (if fullIncidentsCount > 0 then
        Some ((''Rule,'' @ strings_Join targetList '','' @ [CHR 0x0A])
              # map (\<lambda>(rule, sofar). full_rowValue targetList fullIncidentDetails rule @ [CHR 0x0A])
                  (visit (collect_rules fullIncidentDetails)))
      else None)"

section \<open>The incidents of a document, in the order the parser visits them\<close>

definition document_incidents :: "'ln RuleSet list \<Rightarrow> (string \<times> string \<times> 'ln Incident) list" where
  "document_incidents yamlContent =
     concat (map (\<lambda>sect. case Violations sect of
                     None \<Rightarrow> []
                   | Some violations \<Rightarrow>
                       concat (map (\<lambda>(ruleName, violation).
                                 map (\<lambda>incident. (RuleSet.Name sect, ruleName, incident))
                                   (Incidents violation))
                               violations))
                 yamlContent)"

text \<open>The key and the record that the parser builds for one of them.\<close>

definition entry_of ::
  "string \<Rightarrow> string \<times> string \<times> int Incident \<Rightarrow> string \<times> ValidateIncident" where
  "entry_of tc_Name e =
     (case e of (rulesetName, ruleName, incident) \<Rightarrow>
        (incident_key tc_Name (vIncident_of rulesetName ruleName incident),
         vIncident_of rulesetName ruleName incident))"

definition document_entries :: "string \<Rightarrow> int RuleSet list \<Rightarrow> (string \<times> ValidateIncident) list" where
  "document_entries tc_Name yamlContent = map (entry_of tc_Name) (document_incidents yamlContent)"

text \<open>Lines 297 to 322 applied to a list of incidents, one after the other.\<close>

definition record_all ::
  "string \<Rightarrow> (string \<times> string \<times> int Incident) list \<Rightarrow> parse_state \<Rightarrow> parse_state" where
  "record_all tc_Name entries st =
     fold (\<lambda>(rulesetName, ruleName, incident).
             record_incident tc_Name rulesetName ruleName incident)
       entries st"

section \<open>Cells of the summary tables\<close>

text \<open>
  The count stored for a rule and a target in \<open>globalRulesDetails\<close>, the two ways a cell is
  written (with \<open>0\<close> or with a blank for a missing count), and the two collecting loops
  started from any table.
\<close>

definition stored_count :: "(string \<times> (string \<times> nat) list) list \<Rightarrow> string \<Rightarrow> string \<Rightarrow> nat option" where
  "stored_count globalRulesDetails rule target =
     (case map_of globalRulesDetails rule of None \<Rightarrow> None | Some targetHash \<Rightarrow> map_of targetHash target)"

definition zero_cell :: "nat option \<Rightarrow> string" where
  "zero_cell count = (case count of Some c \<Rightarrow> '','' @ Sprintf_d (int c) | None \<Rightarrow> '',0'')"

definition blank_cell :: "nat option \<Rightarrow> string" where
  "blank_cell count = (case count of Some c \<Rightarrow> '','' @ Sprintf_d (int c) | None \<Rightarrow> '', '')"

definition collect_from ::
  "(string \<times> (string \<times> nat) list) list \<Rightarrow> (string \<times> (string \<times> nat) list) list \<Rightarrow>
   (string \<times> (string \<times> nat) list) list" where
  "collect_from analyzed g =
     fold (\<lambda>(target, rulesDetails) globalRulesDetails.
             fold (store_count target) rulesDetails globalRulesDetails) analyzed g"

definition collect_rules_from :: "(string \<times> (string \<times> nat) list) list \<Rightarrow> (string \<times> nat) list \<Rightarrow> (string \<times> nat) list" where
  "collect_rules_from fullIncidentDetails rules =
     fold (\<lambda>(target, targetHash) rules. fold merge_rule targetHash rules) fullIncidentDetails rules"

section \<open>Decoding, incident by incident\<close>

text \<open>
  \<open>copied_from\<close> relates an incident as it stands in the file, with the names of its
  rule-set and rule, to the key and record that the parser builds for it: every field is
  the same, and the line number is the one the decoder reads from \<^verbatim>\<open>lineNumber\<close>.
\<close>

definition copied_from ::
  "string \<times> string \<times> lineNumber_node Incident \<Rightarrow> string \<times> ValidateIncident \<Rightarrow> bool" where
  "copied_from e entry \<longleftrightarrow>
     (case e of (rulesetName, ruleName, r) \<Rightarrow>
        (case entry of (key, v) \<Rightarrow>
           ValidateIncident.RuleSet v = rulesetName \<and> ValidateIncident.Rule v = ruleName
           \<and> ValidateIncident.Uri v = Incident.Uri r
           \<and> ValidateIncident.Message v = Incident.Message r
           \<and> ValidateIncident.CodeSnip v = Incident.CodeSnip r
           \<and> ValidateIncident.Variables v = Incident.Variables r
           \<and> decode_int (Incident.LineNumber r) = Some (ValidateIncident.LineNumber v)))"

definition decode_triple ::
  "string \<times> string \<times> lineNumber_node Incident \<Rightarrow> string \<times> string \<times> int Incident option" where
  "decode_triple e = (case e of (rs, rn, r) \<Rightarrow> (rs, rn, decode_Incident r))"

definition some_triple ::
  "string \<times> string \<times> int Incident \<Rightarrow> string \<times> string \<times> int Incident option" where
  "some_triple e = (case e of (rs, rn, i) \<Rightarrow> (rs, rn, Some i))"

section \<open>The classification of keys\<close>

text \<open>
  The three lists of a comparison as the specification describes them: the keys of the
  current set that the baseline lacks, the keys of the current set whose message differs from
  the baseline's, and the keys of the baseline that the current set lacks.
\<close>

definition newKeys :: "(string \<times> ValidateIncident) list \<Rightarrow> (string \<times> ValidateIncident) list \<Rightarrow> string list" where
  "newKeys current baseline = filter (\<lambda>key. map_of baseline key = None) (map fst current)"

definition changedKeys :: "(string \<times> ValidateIncident) list \<Rightarrow> (string \<times> ValidateIncident) list \<Rightarrow> string list" where
  "changedKeys current baseline =
     map fst (filter (\<lambda>(key, incident).
                 case map_of baseline key of
                   None \<Rightarrow> False
                 | Some baselineIncident \<Rightarrow>
                     ValidateIncident.Message incident \<noteq> ValidateIncident.Message baselineIncident)
               current)"

definition missingKeys :: "(string \<times> ValidateIncident) list \<Rightarrow> (string \<times> ValidateIncident) list \<Rightarrow> string list" where
  "missingKeys current baseline = filter (\<lambda>key. map_of current key = None) (map fst baseline)"


text \<open>A detail line that is written in one of the three formats for the key it stands under.\<close>

definition names_its_key :: "string \<times> string \<Rightarrow> bool" where
  "names_its_key entry \<longleftrightarrow>
     (case entry of (key, value) \<Rightarrow>
        value = ''[NEW] : '' @ key \<or> value = ''[MISS]: '' @ key
        \<or> (\<exists>message baselineMessage.
              value = ''[WRONG] :'' @ key @ '' message mismatch: '' @ message @ '' != ''
                        @ baselineMessage))"

section \<open>A test case, two documents and their surroundings\<close>

text \<open>
  The project \<open>proj1\<close>.  Its current document has two incidents of one rule at the same place
  and line, with different messages, and a third incident without a line number; its
  baseline was produced under another root folder.
\<close>

definition ex_tc :: TestCase where
  "ex_tc = \<lparr>TestCase.Name = ''proj1'', ApplicationFolder = ''/appcat'',
            ProjectFolder = ''/projects/proj1'', OutputFolder = ''/out/proj1'',
            BaseLineFolder = ''/baseline/proj1/appcat_output'',
            ActionList = [ActionRun, ActionValidate]\<rparr>"

definition ex_incident :: "string \<Rightarrow> string \<Rightarrow> 'ln \<Rightarrow> 'ln Incident" where
  "ex_incident uri message lineNumber =
     \<lparr>Incident.Uri = uri, Incident.Message = message, Incident.CodeSnip = ''stmt.execute(q)'',
      Incident.Variables = YMap [(''name'', YStr ''q'')], Incident.LineNumber = lineNumber\<rparr>"

definition ex_document :: "'ln Incident list \<Rightarrow> 'ln RuleSet list" where
  "ex_document incidents =
     [\<lparr>RuleSet.Name = ''security'',
       Violations = Some [(''sql-injection'', \<lparr>Incidents = incidents\<rparr>)]\<rparr>]"

definition ex_current :: "lineNumber_node RuleSet list" where
  "ex_current =
     ex_document
       [ex_incident ''/repo/proj1/src/A.java'' ''M'' (IntLine 10),
        ex_incident ''/repo/proj1/src/A.java'' ''M2'' (IntLine 10),
        ex_incident ''/repo/proj1/src/B.java'' ''N'' NoLineNumber]"

definition ex_current_decoded :: "int RuleSet list" where
  "ex_current_decoded =
     ex_document
       [ex_incident ''/repo/proj1/src/A.java'' ''M'' 10,
        ex_incident ''/repo/proj1/src/A.java'' ''M2'' 10,
        ex_incident ''/repo/proj1/src/B.java'' ''N'' 0]"

definition ex_baseline :: "lineNumber_node RuleSet list" where
  "ex_baseline =
     ex_document
       [ex_incident ''/home/ci/proj1/src/A.java'' ''M2'' (IntLine 10),
        ex_incident ''/home/ci/proj1/src/C.java'' ''K'' (IntLine 7)]"

text \<open>
  Surroundings in which every folder exists and every operation succeeds, paths are joined
  with \<open>/\<close>, and the loop of \<^verbatim>\<open>Run\<close> visits the details in the order of their list.  The
  current \<^verbatim>\<open>output.yaml\<close> of \<open>proj1\<close> is left open; its baseline and both documents of a
  second project \<open>proj2\<close> are the baseline document.
\<close>

definition ex_world_with :: "file_state \<Rightarrow> world" where
  "ex_world_with current =
     \<lparr>Stat_exists = (\<lambda>path. True), MkdirAll_ok = (\<lambda>path. True), cmd_Run_ok = (\<lambda>path. True),
      WriteFile_ok = (\<lambda>dir file. True), Create_ok = (\<lambda>path. True),
      output_yaml = (\<lambda>path. if path = ''/out/proj1/appcat_output'' then current
                             else if path = ''/baseline/proj1/appcat_output''
                                     \<or> path = ''/out/proj2/appcat_output''
                                     \<or> path = ''/baseline/proj2/appcat_output''
                                  then Content ex_baseline
                             else Absent),
      filepath_Join = (\<lambda>a b. a @ ''/'' @ b),
      range_order = (\<lambda>m. m)\<rparr>"

definition ex_world :: world where
  "ex_world = ex_world_with (Content ex_current)"

text \<open>The same surroundings in a run whose loop visits the details in the opposite order.\<close>

definition ex_world_reversed :: world where
  "ex_world_reversed = ex_world \<lparr>range_order := rev\<rparr>"

definition ex_tc2 :: TestCase where
  "ex_tc2 = \<lparr>TestCase.Name = ''proj2'', ApplicationFolder = ''/appcat'',
            ProjectFolder = ''/projects/proj2'', OutputFolder = ''/out/proj2'',
            BaseLineFolder = ''/baseline/proj2/appcat_output'',
            ActionList = [ActionRun, ActionValidate]\<rparr>"

text \<open>A document whose only incident has the text \<open>ten\<close> as its line number.\<close>

definition ex_text_line :: "lineNumber_node RuleSet list" where
  "ex_text_line = ex_document [ex_incident ''/repo/proj1/src/A.java'' ''M'' (NotIntLine ''ten'')]"

text \<open>The rule counts of two projects, neither reporting the rule of the other.\<close>

definition ex_analyzed :: "(string \<times> (string \<times> nat) list) list" where
  "ex_analyzed = [(''proj1'', [(''sql-injection'', 3)]), (''proj2'', [(''xss'', 1)])]"

text \<open>The rule counts of two projects of which only the first reports a rule.\<close>

definition ex_one_rule :: "(string \<times> (string \<times> nat) list) list" where
  "ex_one_rule = [(''proj1'', [(''sql-injection'', 3)]), (''proj2'', [])]"

text \<open>
  The records and maps that the parser builds from the two documents of \<open>proj1\<close>, the
  current map once more with other locations and code snippets, and the messages of
  \<^verbatim>\<open>Run\<close> for \<open>proj1\<close> in the two runs.
\<close>

definition ex_validate :: "string \<Rightarrow> string \<Rightarrow> string \<Rightarrow> int \<Rightarrow> ValidateIncident" where
  "ex_validate uri message codeSnip lineNumber =
     \<lparr>ValidateIncident.RuleSet = ''security'', ValidateIncident.Rule = ''sql-injection'',
      ValidateIncident.Uri = uri, ValidateIncident.Message = message,
      ValidateIncident.CodeSnip = codeSnip,
      ValidateIncident.Variables = YMap [(''name'', YStr ''q'')],
      ValidateIncident.LineNumber = lineNumber\<rparr>"

definition ex_current_details :: "(string \<times> ValidateIncident) list" where
  "ex_current_details =
     [(''security-sql-injection-proj1/src/A.java-10'',
       ex_validate ''/repo/proj1/src/A.java'' ''M'' ''stmt.execute(q)'' 10),
      (''security-sql-injection-proj1/src/B.java-0'',
       ex_validate ''/repo/proj1/src/B.java'' ''N'' ''stmt.execute(q)'' 0)]"


definition ex_baseline_details :: "(string \<times> ValidateIncident) list" where
  "ex_baseline_details =
     [(''security-sql-injection-proj1/src/A.java-10'',
       ex_validate ''/home/ci/proj1/src/A.java'' ''M2'' ''stmt.execute(q)'' 10),
      (''security-sql-injection-proj1/src/C.java-7'',
       ex_validate ''/home/ci/proj1/src/C.java'' ''K'' ''stmt.execute(q)'' 7)]"

definition ex_current_parsed :: parse_state where
  "ex_current_parsed =
     \<lparr>incidentsCount = 3, ruleIncidentDetails = [(''sql-injection'', 3)],
      incidentsDetails = ex_current_details,
      duplicates_logged = [''security-sql-injection-proj1/src/A.java-10'']\<rparr>"

definition ex_baseline_parsed :: parse_state where
  "ex_baseline_parsed =
     \<lparr>incidentsCount = 2, ruleIncidentDetails = [(''sql-injection'', 2)],
      incidentsDetails = ex_baseline_details, duplicates_logged = []\<rparr>"

definition ex_message_reversed :: string where
  "ex_message_reversed =
     ''- [ ] :x: <b>proj1</b>. '' @ [CHR 0x0A, CHR 0x0A] @ ''  <details>'' @ [CHR 0x0A]
       @ ''  <summary> Details </summary>'' @ [CHR 0x0A, CHR 0x0A] @ ''  ''
       @ ''[MISS]: security-sql-injection-proj1/src/C.java-7'' @ [CHR 0x0A]
       @ ''[NEW] : security-sql-injection-proj1/src/B.java-0'' @ [CHR 0x0A]
       @ ''[WRONG] :security-sql-injection-proj1/src/A.java-10 message mismatch: M != M2'' @ [CHR 0x0A]
       @ [CHR 0x0A, CHR 0x0A] @ ''</details>'' @ [CHR 0x0A]"

definition ex_message :: string where
  "ex_message =
     ''- [ ] :x: <b>proj1</b>. '' @ [CHR 0x0A, CHR 0x0A] @ ''  <details>'' @ [CHR 0x0A]
       @ ''  <summary> Details </summary>'' @ [CHR 0x0A, CHR 0x0A] @ ''  ''
       @ ''[WRONG] :security-sql-injection-proj1/src/A.java-10 message mismatch: M != M2'' @ [CHR 0x0A]
       @ ''[NEW] : security-sql-injection-proj1/src/B.java-0'' @ [CHR 0x0A]
       @ ''[MISS]: security-sql-injection-proj1/src/C.java-7'' @ [CHR 0x0A]
       @ [CHR 0x0A, CHR 0x0A] @ ''</details>'' @ [CHR 0x0A]"

section \<open>The parser as one pass over the incidents of the document\<close>

lemma record_all_Nil [simp]: "record_all n [] st = st" by (simp add: record_all_def)
lemma record_all_Cons [simp]:
  "record_all n ((rs, rn, i) # xs) st = record_all n xs (record_incident n rs rn i st)"
  by (simp add: record_all_def)
lemma record_all_append [simp]: "record_all n (xs @ ys) st = record_all n ys (record_all n xs st)"
  by (simp add: record_all_def)

lemma incidents_loop_Inr:
  "incidents_loop n w p rs rn i xs st = Inr st' \<Longrightarrow>
   st' = record_all n (map (\<lambda>x. (rs, rn, x)) xs) st"
  by (induction xs arbitrary: st i) (auto split: sum.splits simp: Let_def)

lemma violations_loop_Inr:
  "violations_loop n w p rs vs st = Inr st' \<Longrightarrow>
   st' = record_all n (concat (map (\<lambda>(rn, v). map (\<lambda>x. (rs, rn, x)) (Incidents v)) vs)) st"
proof (induction vs arbitrary: st)
  case Nil then show ?case by simp
next
  case (Cons a vs)
  obtain rn v where a: "a = (rn, v)" by (cases a)
  show ?case using Cons.prems Cons.IH
    by (auto simp: a split: sum.splits if_splits dest!: incidents_loop_Inr)
qed

lemma rulesets_loop_Inr:
  "rulesets_loop n w p doc st = Inr st' \<Longrightarrow> st' = record_all n (document_incidents doc) st"
proof (induction doc arbitrary: st)
  case Nil then show ?case by (simp add: document_incidents_def)
next
  case (Cons s doc)
  show ?case using Cons.prems Cons.IH
    by (auto simp: document_incidents_def split: sum.splits option.splits dest!: violations_loop_Inr)
qed

lemma incidents_loop_ok:
  "p = [] \<or> (\<forall>f. WriteFile_ok w p f) \<Longrightarrow>
   incidents_loop n w p rs rn i xs st = Inr (record_all n (map (\<lambda>x. (rs, rn, x)) xs) st)"
  by (induction xs arbitrary: st i) (auto split: sum.splits simp: Let_def persist_incident_def)

lemma violations_loop_ok:
  "p = [] \<or> (\<forall>f. WriteFile_ok w p f) \<Longrightarrow>
   violations_loop n w p rs vs st
     = Inr (record_all n (concat (map (\<lambda>(rn, v). map (\<lambda>x. (rs, rn, x)) (Incidents v)) vs)) st)"
proof (induction vs arbitrary: st)
  case Nil then show ?case by simp
next
  case (Cons a vs)
  obtain rn v where a: "a = (rn, v)" by (cases a)
  show ?case using Cons.prems Cons.IH
    by (auto simp: a incidents_loop_ok)
qed

lemma rulesets_loop_ok:
  "p = [] \<or> (\<forall>f. WriteFile_ok w p f) \<Longrightarrow>
   rulesets_loop n w p doc st = Inr (record_all n (document_incidents doc) st)"
proof (induction doc arbitrary: st)
  case Nil then show ?case by (simp add: document_incidents_def)
next
  case (Cons s doc)
  show ?case using Cons.prems Cons.IH
    by (auto simp: document_incidents_def violations_loop_ok split: option.splits)
qed

lemma ParseAppCatOutput_Inr:
  "ParseAppCatOutput tc w outputPath presistPath = Inr st \<Longrightarrow>
   \<exists>raw yamlContent. output_yaml w outputPath = Content raw \<and> yaml_Unmarshal raw = Some yamlContent
      \<and> st = record_all (TestCase.Name tc) (document_incidents yamlContent) parse_init"
  by (auto simp: ParseAppCatOutput_def Fatalf_def split: file_state.splits option.splits
           dest!: rulesets_loop_Inr)

lemma ParseAppCatOutput_ok:
  "output_yaml w outputPath = Content raw \<Longrightarrow> yaml_Unmarshal raw = Some yamlContent \<Longrightarrow>
   presistPath = [] \<or> (\<forall>f. WriteFile_ok w presistPath f) \<Longrightarrow>
   ParseAppCatOutput tc w outputPath presistPath
     = Inr (record_all (TestCase.Name tc) (document_incidents yamlContent) parse_init)"
  by (simp add: ParseAppCatOutput_def rulesets_loop_ok)

lemma sum_update:
  "sum_list (map snd (AList.update k v m)) + (case map_of m k of None \<Rightarrow> 0 | Some c \<Rightarrow> c)
     = sum_list (map snd m) + (v::nat)"
  by (induction m) auto

lemma sum_increment: "sum_list (map snd (increment r m)) = sum_list (map snd m) + 1"
  using sum_update [of r "(case map_of m r of None \<Rightarrow> 0 | Some c \<Rightarrow> c) + 1" m]
  by (simp add: increment_def)

lemma update_absent: "map_of m k = None \<Longrightarrow> AList.update k v m = m @ [(k, v)]"
  by (induction m) (auto split: if_splits)

lemma record_incident_count:
  "incidentsCount (record_incident n rs rn i st) = incidentsCount st + 1"
  by (simp add: record_incident_def Let_def)

lemma record_incident_rules:
  "ruleIncidentDetails (record_incident n rs rn i st) = increment rn (ruleIncidentDetails st)"
  by (simp add: record_incident_def Let_def)

lemma record_incident_details:
  "incidentsDetails (record_incident n rs rn i st) =
     (if map_of (incidentsDetails st) (fst (entry_of n (rs, rn, i))) = None
      then incidentsDetails st @ [entry_of n (rs, rn, i)]
      else incidentsDetails st)"
  by (simp add: record_incident_def Let_def entry_of_def update_absent)

lemma record_incident_dups:
  "duplicates_logged (record_incident n rs rn i st) =
     (if map_of (incidentsDetails st) (fst (entry_of n (rs, rn, i))) = None
      then duplicates_logged st
      else duplicates_logged st @ [fst (entry_of n (rs, rn, i))])"
  by (simp add: record_incident_def Let_def entry_of_def)

lemma record_all_count:
  "incidentsCount (record_all n xs st) = incidentsCount st + length xs"
  by (induction xs arbitrary: st) (auto simp: record_incident_count)

lemma record_all_rules_sum:
  "sum_list (map snd (ruleIncidentDetails (record_all n xs st)))
     = sum_list (map snd (ruleIncidentDetails st)) + length xs"
  by (induction xs arbitrary: st) (auto simp: record_incident_rules sum_increment)

lemma record_all_distinct:
  "distinct (map fst (incidentsDetails st)) \<Longrightarrow>
   distinct (map fst (incidentsDetails (record_all n xs st)))"
proof (induction xs arbitrary: st)
  case Nil then show ?case by simp
next
  case (Cons e xs)
  obtain rs rn i where e: "e = (rs, rn, i)" by (cases e)
  have "distinct (map fst (incidentsDetails (record_incident n rs rn i st)))"
    using Cons.prems by (auto simp: record_incident_details map_of_eq_None_iff)
  then show ?case using Cons.IH by (simp add: e)
qed

lemma record_all_lookup:
  "map_of (incidentsDetails (record_all n xs st)) = map_of (incidentsDetails st @ map (entry_of n) xs)"
proof (induction xs arbitrary: st)
  case Nil then show ?case by simp
next
  case (Cons e xs)
  obtain rs rn i where e: "e = (rs, rn, i)" by (cases e)
  show ?case
    unfolding e record_all_Cons Cons.IH
    by (rule ext) (auto simp: record_incident_details map_add_def split: option.splits prod.splits)
qed

lemma record_all_lengths:
  "length (incidentsDetails (record_all n xs st)) + length (duplicates_logged (record_all n xs st))
     = length (incidentsDetails st) + length (duplicates_logged st) + length xs"
  by (induction xs arbitrary: st) (auto simp: record_incident_details record_incident_dups)

section \<open>\<^verbatim>\<open>strings.Index\<close> and the first occurrence\<close>

lemma strings_Index_range: "- 1 \<le> strings_Index s p \<and> strings_Index s p \<le> int (length s)"
  by (induction s) (auto simp: Let_def)

lemma strings_Index_none:
  "strings_Index s p = - 1 \<longleftrightarrow> \<not> (\<exists>pre post. s = pre @ p @ post)"
proof (induction s)
  case Nil
  then show ?case by auto
next
  case (Cons c s)
  have ge: "- 1 \<le> strings_Index s p" using strings_Index_range by blast
  show ?case
  proof (cases "prefix p (c # s)")
    case True
    then obtain post where "c # s = p @ post" by (auto simp: prefix_def)
    then have "c # s = [] @ p @ post" by simp
    then show ?thesis using True by (metis strings_Index.simps(2) zero_neq_neg_one)
  next
    case False
    have "(\<exists>pre post. c # s = pre @ p @ post) \<longleftrightarrow> (\<exists>pre post. s = pre @ p @ post)"
    proof
      assume "\<exists>pre post. c # s = pre @ p @ post"
      then obtain pre post where e: "c # s = pre @ p @ post" by blast
      show "\<exists>pre post. s = pre @ p @ post"
      proof (cases pre)
        case Nil
        then have "prefix p (c # s)" using e by (simp add: prefix_def)
        then show ?thesis using False by simp
      next
        case (Cons a pre')
        then have "s = pre' @ p @ post" using e by simp
        then show ?thesis by blast
      qed
    next
      assume "\<exists>pre post. s = pre @ p @ post"
      then obtain pre post where "s = pre @ p @ post" by blast
      then have "c # s = (c # pre) @ p @ post" by simp
      then show "\<exists>pre post. c # s = pre @ p @ post" by blast
    qed
    then show ?thesis using False Cons.IH ge by (auto simp: Let_def)
  qed
qed

lemma strings_Index_first:
  "s = pre @ p @ post \<Longrightarrow> \<forall>pre' post'. s = pre' @ p @ post' \<longrightarrow> length pre \<le> length pre' \<Longrightarrow>
   strings_Index s p = int (length pre)"
proof (induction s arbitrary: pre)
  case Nil
  then show ?case by auto
next
  case (Cons c s)
  show ?case
  proof (cases "prefix p (c # s)")
    case True
    then obtain post0 where "c # s = [] @ p @ post0" by (auto simp: prefix_def)
    then have "length pre \<le> length ([]::string)" using Cons.prems(2) by blast
    then show ?thesis using True by simp
  next
    case False
    then have "pre \<noteq> []" using Cons.prems(1) by (auto simp: prefix_def)
    then obtain a pre1 where pre: "pre = a # pre1" by (cases pre) auto
    then have s: "s = pre1 @ p @ post" using Cons.prems(1) by simp
    have "\<forall>pre' post'. s = pre' @ p @ post' \<longrightarrow> length pre1 \<le> length pre'"
    proof (intro allI impI)
      fix pre' post' assume "s = pre' @ p @ post'"
      then have "c # s = (c # pre') @ p @ post'" by simp
      then have "length pre \<le> length (c # pre')" using Cons.prems(2) by blast
      then show "length pre1 \<le> length pre'" by (simp add: pre)
    qed
    then have "strings_Index s p = int (length pre1)" using Cons.IH s by blast
    then show ?thesis using False by (simp add: pre Let_def)
  qed
qed

lemma tempPath_not_found:
  "\<not> (\<exists>pre post. uri = pre @ P @ post) \<Longrightarrow> tempPath P uri = uri"
  using strings_Index_none [of uri P] by (simp add: tempPath_def)

lemma tempPath_found:
  "uri = pre @ P @ post \<Longrightarrow> \<forall>pre' post'. uri = pre' @ P @ post' \<longrightarrow> length pre \<le> length pre' \<Longrightarrow>
   tempPath P uri = P @ post"
  using strings_Index_first [of uri pre P post] by (simp add: tempPath_def)

lemma strings_Index_le:
  "s = pre @ p @ post \<Longrightarrow> strings_Index s p \<noteq> - 1 \<and> strings_Index s p \<le> int (length pre)"
proof (induction s arbitrary: pre)
  case Nil
  then show ?case by auto
next
  case (Cons c s)
  show ?case
  proof (cases "prefix p (c # s)")
    case True
    then show ?thesis by simp
  next
    case False
    then have "pre \<noteq> []" using Cons.prems by (auto simp: prefix_def)
    then obtain a pre1 where pre: "pre = a # pre1" by (cases pre) auto
    then have "s = pre1 @ p @ post" using Cons.prems by simp
    then have "strings_Index s p \<noteq> - 1 \<and> strings_Index s p \<le> int (length pre1)"
      by (rule Cons.IH)
    then show ?thesis using False strings_Index_range [of s p] by (simp add: pre Let_def)
  qed
qed

section \<open>What the pass stores and what it logs\<close>

lemma record_all_details_subset:
  "set (incidentsDetails (record_all n xs st)) \<subseteq> set (incidentsDetails st) \<union> set (map (entry_of n) xs)"
proof (induction xs arbitrary: st)
  case Nil then show ?case by simp
next
  case (Cons e xs)
  obtain rs rn i where e: "e = (rs, rn, i)" by (cases e)
  show ?case using Cons.IH [of "record_incident n rs rn i st"]
    by (auto simp: e record_incident_details split: if_splits)
qed

lemma record_all_keys:
  "fst ` set (incidentsDetails (record_all n xs st))
     = fst ` set (incidentsDetails st) \<union> fst ` set (map (entry_of n) xs)"
proof -
  have "dom (map_of (incidentsDetails (record_all n xs st)))
          = dom (map_of (incidentsDetails st @ map (entry_of n) xs))"
    by (simp only: record_all_lookup)
  then show ?thesis by (simp only: dom_map_of_conv_image_fst set_append image_Un Un_commute)
qed

lemma record_all_dups_mono:
  "set (duplicates_logged st) \<subseteq> set (duplicates_logged (record_all n xs st))"
proof (induction xs arbitrary: st)
  case Nil then show ?case by simp
next
  case (Cons e xs)
  obtain rs rn i where e: "e = (rs, rn, i)" by (cases e)
  show ?case using Cons.IH [of "record_incident n rs rn i st"]
    by (auto simp: e record_incident_dups split: if_splits)
qed

lemma record_all_dup_logged:
  assumes "fst (entry_of n e) \<in> fst ` set (incidentsDetails st) \<union> fst ` set (map (entry_of n) xs1)"
  shows "fst (entry_of n e) \<in> set (duplicates_logged (record_all n (xs1 @ e # xs2) st))"
proof -
  obtain rs rn i where e: "e = (rs, rn, i)" by (cases e)
  let ?st1 = "record_all n xs1 st"
  have "fst (entry_of n e) \<in> fst ` set (incidentsDetails ?st1)"
    using assms by (simp only: record_all_keys)
  then have "map_of (incidentsDetails ?st1) (fst (entry_of n e)) \<noteq> None"
    by (simp add: map_of_eq_None_iff)
  then have "fst (entry_of n e) \<in> set (duplicates_logged (record_incident n rs rn i ?st1))"
    by (auto simp: record_incident_dups e)
  then show ?thesis
    using record_all_dups_mono [of "record_incident n rs rn i ?st1" n xs2] by (auto simp: e)
qed

lemma map_of_first:
  "i < length es \<Longrightarrow> \<not> (\<exists>i'<i. fst (es ! i') = fst (es ! i)) \<Longrightarrow>
   map_of es (fst (es ! i)) = Some (snd (es ! i))"
proof (induction es arbitrary: i)
  case Nil then show ?case by simp
next
  case (Cons e es)
  show ?case
  proof (cases i)
    case 0 then show ?thesis by (cases e) simp
  next
    case (Suc m)
    have ne: "fst e \<noteq> fst (es ! m)" using Cons.prems(2) Suc by (auto dest: spec [of _ 0])
    have "\<not> (\<exists>i'<m. fst (es ! i') = fst (es ! m))"
    proof
      assume "\<exists>i'<m. fst (es ! i') = fst (es ! m)"
      then obtain i' where "i' < m" "fst (es ! i') = fst (es ! m)" by blast
      then have "Suc i' < i \<and> fst ((e # es) ! Suc i') = fst ((e # es) ! i)" using Suc by simp
      then show False using Cons.prems(2) by blast
    qed
    then have "map_of es (fst (es ! m)) = Some (snd (es ! m))"
      using Cons.IH [of m] Cons.prems(1) Suc by simp
    then show ?thesis using ne Suc by (cases e) auto
  qed
qed

lemma distinct_filter_key:
  "distinct (map fst al) \<Longrightarrow> map_of al k = Some v \<Longrightarrow> filter (\<lambda>e. fst e = k) al = [(k, v)]"
proof (induction al)
  case Nil then show ?case by simp
next
  case (Cons a al)
  show ?case
  proof (cases "fst a = k")
    case True
    have "k \<notin> fst ` set al" using True Cons.prems(1) by simp
    then have "\<forall>e\<in>set al. fst e \<noteq> k" by (metis imageI)
    then have "filter (\<lambda>e. fst e = k) al = []"
      by (simp add: filter_empty_conv)
    then show ?thesis using True Cons.prems(2) by (cases a) auto
  next
    case False
    then show ?thesis using Cons by (cases a) auto
  qed
qed

lemma ex_current_parse:
  "ParseAppCatOutput ex_tc ex_world ''/out/proj1/appcat_output'' [] = Inr ex_current_parsed"
  by code_simp

section \<open>Counts and keys of a parsed document\<close>

text \<open>
  Claim C8.  Whenever \<^verbatim>\<open>ParseAppCatOutput\<close> returns for a document, the total incident count
  it returns is the sum of the per-rule counts it returns, and no key occurs twice among the
  keys of the incident map it returns.
\<close>

theorem ParseAppCatOutput_total_is_sum_and_keys_distinct:
  assumes "ParseAppCatOutput tc w outputPath presistPath = Inr st"
  shows "incidentsCount st = sum_list (map snd (ruleIncidentDetails st))
         \<and> distinct (map fst (incidentsDetails st))"
proof -
  from assms obtain yamlContent where
    st: "st = record_all (TestCase.Name tc) (document_incidents yamlContent) parse_init"
    by (auto dest: ParseAppCatOutput_Inr)
  have "incidentsCount st = length (document_incidents yamlContent)"
    unfolding st by (simp add: record_all_count parse_init_def)
  moreover have "sum_list (map snd (ruleIncidentDetails st)) = length (document_incidents yamlContent)"
    unfolding st by (simp add: record_all_rules_sum parse_init_def)
  moreover have "distinct (map fst (incidentsDetails st))"
    unfolding st by (rule record_all_distinct) (simp add: parse_init_def)
  ultimately show ?thesis by simp
qed

theorem ParseAppCatOutput_total_is_sum_and_keys_distinct_witness:
  "ParseAppCatOutput ex_tc ex_world ''/out/proj1/appcat_output'' [] = Inr ex_current_parsed
   \<and> incidentsCount ex_current_parsed = sum_list (map snd (ruleIncidentDetails ex_current_parsed))
   \<and> distinct (map fst (incidentsDetails ex_current_parsed))"
  using ex_current_parse
    ParseAppCatOutput_total_is_sum_and_keys_distinct [OF ex_current_parse]
  by blast

lemma ex_current_file: "output_yaml ex_world ''/out/proj1/appcat_output'' = Content ex_current"
  by (simp add: ex_world_def ex_world_with_def)

lemma ex_current_decode: "yaml_Unmarshal ex_current = Some ex_current_decoded"
  by code_simp

lemma ex_entries_length: "1 < length (document_entries (TestCase.Name ex_tc) ex_current_decoded)"
  by code_simp

lemma ex_entries_same_key:
  "fst (document_entries (TestCase.Name ex_tc) ex_current_decoded ! 1)
     = fst (document_entries (TestCase.Name ex_tc) ex_current_decoded ! 0)"
  by code_simp

text \<open>
  Claim C10.  The parser counts an incident, in the total and under its rule, before it looks
  the key up: the total and the sum of the per-rule counts are the number of incidents of the
  document, every incident is either stored or logged as a duplicate, the number of keys is
  at most the total, and the two are equal exactly when no two incidents of the document have
  the same key.
\<close>

theorem keys_at_most_total:
  assumes "ParseAppCatOutput tc w outputPath presistPath = Inr st"
    and "output_yaml w outputPath = Content raw"
    and "yaml_Unmarshal raw = Some yamlContent"
  shows "incidentsCount st = length (document_incidents yamlContent)
       \<and> sum_list (map snd (ruleIncidentDetails st)) = length (document_incidents yamlContent)
       \<and> incidentsCount st = length (incidentsDetails st) + length (duplicates_logged st)
       \<and> length (incidentsDetails st) \<le> incidentsCount st
       \<and> (length (incidentsDetails st) = incidentsCount st
            \<longleftrightarrow> distinct (map fst (document_entries (TestCase.Name tc) yamlContent)))"
proof -
  let ?n = "TestCase.Name tc"
  let ?xs = "document_incidents yamlContent"
  let ?keys = "map fst (document_entries ?n yamlContent)"
  have st: "st = record_all ?n ?xs parse_init"
    using assms by (auto dest!: ParseAppCatOutput_Inr)
  have count: "incidentsCount st = length ?xs"
    unfolding st by (simp add: record_all_count parse_init_def)
  have rules: "sum_list (map snd (ruleIncidentDetails st)) = length ?xs"
    unfolding st by (simp add: record_all_rules_sum parse_init_def)
  have lens: "length (incidentsDetails st) + length (duplicates_logged st) = length ?xs"
    unfolding st using record_all_lengths [of ?n ?xs parse_init] by (simp add: parse_init_def)
  have dist: "distinct (map fst (incidentsDetails st))"
    unfolding st by (rule record_all_distinct) (simp add: parse_init_def)
  have keys: "set (map fst (incidentsDetails st)) = set ?keys"
    unfolding st using record_all_keys [of ?n ?xs parse_init]
    by (simp add: parse_init_def document_entries_def image_image)
  have "length (incidentsDetails st) = card (set ?keys)"
    using dist keys distinct_card [of "map fst (incidentsDetails st)"] by simp
  moreover have "length ?keys = length ?xs" by (simp add: document_entries_def)
  ultimately have "length (incidentsDetails st) = length ?xs \<longleftrightarrow> distinct ?keys"
    using card_distinct [of ?keys] distinct_card [of ?keys] by auto
  then show ?thesis using count rules lens by simp
qed

theorem keys_at_most_total_witness:
  "ParseAppCatOutput ex_tc ex_world ''/out/proj1/appcat_output'' [] = Inr ex_current_parsed
   \<and> output_yaml ex_world ''/out/proj1/appcat_output'' = Content ex_current
   \<and> yaml_Unmarshal ex_current = Some ex_current_decoded
   \<and> incidentsCount ex_current_parsed = length (document_incidents ex_current_decoded)
   \<and> sum_list (map snd (ruleIncidentDetails ex_current_parsed))
        = length (document_incidents ex_current_decoded)
   \<and> incidentsCount ex_current_parsed
        = length (incidentsDetails ex_current_parsed) + length (duplicates_logged ex_current_parsed)
   \<and> length (incidentsDetails ex_current_parsed) \<le> incidentsCount ex_current_parsed
   \<and> (length (incidentsDetails ex_current_parsed) = incidentsCount ex_current_parsed
        \<longleftrightarrow> distinct (map fst (document_entries (TestCase.Name ex_tc) ex_current_decoded)))"
  using ex_current_parse ex_current_file ex_current_decode
    keys_at_most_total [OF ex_current_parse ex_current_file ex_current_decode]
  by blast

section \<open>Duplicate keys\<close>

lemma ex_incident_first:
  "document_incidents ex_current_decoded ! 0
     = (''security'', ''sql-injection'', ex_incident ''/repo/proj1/src/A.java'' ''M'' 10)"
  by code_simp

lemma ex_incident_later:
  "document_incidents ex_current_decoded ! 1
     = (''security'', ''sql-injection'', ex_incident ''/repo/proj1/src/A.java'' ''M2'' 10)"
  by code_simp

lemma ex_key_later:
  "fst (document_entries (TestCase.Name ex_tc) ex_current_decoded ! 1)
     = ''security-sql-injection-proj1/src/A.java-10''"
  by code_simp

lemma ex_key_first:
  "fst (document_entries (TestCase.Name ex_tc) ex_current_decoded ! 0)
     = ''security-sql-injection-proj1/src/A.java-10''"
  by code_simp

text \<open>
  Claim C4.  When the incident at position \<open>j\<close> of a document has the key of an earlier
  incident, first met at position \<open>i\<close>, the parser still returns (with persistence off, or
  with every write succeeding).  The map it returns holds under that key exactly one entry,
  and the record of that entry is the one built from the incident at \<open>i\<close>: it has the names
  of the rule-set and rule of that incident and its location, message, code snippet,
  variables and line number, whatever the incident at \<open>j\<close> says.  The key is among the
  duplicates logged.
\<close>

theorem first_occurrence_kept:
  assumes "output_yaml w outputPath = Content raw"
    and "yaml_Unmarshal raw = Some yamlContent"
    and "presistPath = [] \<or> (\<forall>f. WriteFile_ok w presistPath f)"
    and "entries = document_entries (TestCase.Name tc) yamlContent"
    and "i < j" and "j < length entries"
    and "fst (entries ! j) = fst (entries ! i)"
    and "\<not> (\<exists>i'<i. fst (entries ! i') = fst (entries ! i))"
    and "document_incidents yamlContent ! i = (rulesetName, ruleName, incident)"
  shows "\<exists>st v. ParseAppCatOutput tc w outputPath presistPath = Inr st
           \<and> map_of (incidentsDetails st) (fst (entries ! j)) = Some v
           \<and> v = snd (entries ! i)
           \<and> ValidateIncident.RuleSet v = rulesetName
           \<and> ValidateIncident.Rule v = ruleName
           \<and> ValidateIncident.Uri v = Incident.Uri incident
           \<and> ValidateIncident.Message v = Incident.Message incident
           \<and> ValidateIncident.CodeSnip v = Incident.CodeSnip incident
           \<and> ValidateIncident.Variables v = Incident.Variables incident
           \<and> ValidateIncident.LineNumber v = Incident.LineNumber incident
           \<and> filter (\<lambda>e. fst e = fst (entries ! j)) (incidentsDetails st) = [(fst (entries ! i), v)]
           \<and> fst (entries ! j) \<in> set (duplicates_logged st)"
proof -
  let ?n = "TestCase.Name tc"
  let ?xs = "document_incidents yamlContent"
  let ?st = "record_all ?n ?xs parse_init"
  let ?v = "snd (entries ! i)"
  have es: "entries = map (entry_of ?n) ?xs" using assms(4) by (simp add: document_entries_def)
  have parse: "ParseAppCatOutput tc w outputPath presistPath = Inr ?st"
    using assms(1-3) by (rule ParseAppCatOutput_ok)
  have "map_of (incidentsDetails ?st) = map_of entries"
    by (simp add: record_all_lookup parse_init_def es)
  moreover have "map_of entries (fst (entries ! i)) = Some (snd (entries ! i))"
    using assms(5,6,8) by (intro map_of_first) auto
  ultimately have look: "map_of (incidentsDetails ?st) (fst (entries ! j)) = Some ?v"
    using assms(7) by simp
  have dist: "distinct (map fst (incidentsDetails ?st))"
    by (rule record_all_distinct) (simp add: parse_init_def)
  have one: "filter (\<lambda>e. fst e = fst (entries ! j)) (incidentsDetails ?st)
                = [(fst (entries ! i), ?v)]"
    using distinct_filter_key [OF dist look] assms(7) by simp
  have jlen: "j < length ?xs" using assms(6) es by simp
  have "entries ! i = entry_of ?n (?xs ! i)" using assms(5) jlen es by simp
  then have v: "?v = vIncident_of rulesetName ruleName incident"
    using assms(9) by (simp add: entry_of_def)
  have fields: "ValidateIncident.RuleSet ?v = rulesetName"
    "ValidateIncident.Rule ?v = ruleName"
    "ValidateIncident.Uri ?v = Incident.Uri incident"
    "ValidateIncident.Message ?v = Incident.Message incident"
    "ValidateIncident.CodeSnip ?v = Incident.CodeSnip incident"
    "ValidateIncident.Variables ?v = Incident.Variables incident"
    "ValidateIncident.LineNumber ?v = Incident.LineNumber incident"
    unfolding v by (simp_all add: vIncident_of_def)
  have split: "?xs = take j ?xs @ ?xs ! j # drop (Suc j) ?xs"
    using jlen by (simp add: id_take_nth_drop)
  have ej: "entries ! j = entry_of ?n (?xs ! j)" using jlen es by simp
  have "i < length (take j ?xs)" using assms(5) jlen by simp
  then have "entry_of ?n (take j ?xs ! i) \<in> set (map (entry_of ?n) (take j ?xs))"
    by (metis length_map nth_map nth_mem)
  moreover have "entry_of ?n (take j ?xs ! i) = entries ! i"
    using assms(5) jlen es by simp
  ultimately have "fst (entry_of ?n (?xs ! j)) \<in> fst ` set (map (entry_of ?n) (take j ?xs))"
    using assms(7) ej by (metis image_eqI)
  then have "fst (entry_of ?n (?xs ! j))
      \<in> set (duplicates_logged (record_all ?n (take j ?xs @ ?xs ! j # drop (Suc j) ?xs) parse_init))"
    by (intro record_all_dup_logged) simp
  then have logged: "fst (entries ! j) \<in> set (duplicates_logged ?st)"
    using split ej by simp
  show ?thesis
    using parse look fields one logged
    by (intro exI [of _ ?st] exI [of _ ?v] conjI refl)
qed

theorem first_occurrence_kept_witness:
  "output_yaml ex_world ''/out/proj1/appcat_output'' = Content ex_current
   \<and> yaml_Unmarshal ex_current = Some ex_current_decoded
   \<and> document_incidents ex_current_decoded ! 0
        = (''security'', ''sql-injection'', ex_incident ''/repo/proj1/src/A.java'' ''M'' 10)
   \<and> document_incidents ex_current_decoded ! 1
        = (''security'', ''sql-injection'', ex_incident ''/repo/proj1/src/A.java'' ''M2'' 10)
   \<and> 1 < length (document_entries (TestCase.Name ex_tc) ex_current_decoded)
   \<and> fst (document_entries (TestCase.Name ex_tc) ex_current_decoded ! 1)
        = fst (document_entries (TestCase.Name ex_tc) ex_current_decoded ! 0)
   \<and> (\<exists>st v. ParseAppCatOutput ex_tc ex_world ''/out/proj1/appcat_output'' [] = Inr st
           \<and> map_of (incidentsDetails st) ''security-sql-injection-proj1/src/A.java-10'' = Some v
           \<and> ValidateIncident.RuleSet v = ''security''
           \<and> ValidateIncident.Rule v = ''sql-injection''
           \<and> ValidateIncident.Uri v = ''/repo/proj1/src/A.java''
           \<and> ValidateIncident.Message v = ''M''
           \<and> ValidateIncident.CodeSnip v = ''stmt.execute(q)''
           \<and> ValidateIncident.Variables v = YMap [(''name'', YStr ''q'')]
           \<and> ValidateIncident.LineNumber v = 10
           \<and> filter (\<lambda>e. fst e = ''security-sql-injection-proj1/src/A.java-10'') (incidentsDetails st)
               = [(''security-sql-injection-proj1/src/A.java-10'', v)]
           \<and> ''security-sql-injection-proj1/src/A.java-10'' \<in> set (duplicates_logged st))"
proof -
  have p: "([]::string) = [] \<or> (\<forall>f. WriteFile_ok ex_world [] f)" by simp
  have lt: "(0::nat) < 1" by simp
  have first: "\<not> (\<exists>i'<0::nat. fst (document_entries (TestCase.Name ex_tc) ex_current_decoded ! i')
                  = fst (document_entries (TestCase.Name ex_tc) ex_current_decoded ! 0))"
    by simp
  note c = first_occurrence_kept [OF ex_current_file ex_current_decode p refl lt ex_entries_length
      ex_entries_same_key first ex_incident_first]
  have f: "Incident.Uri (ex_incident u m l) = u" "Incident.Message (ex_incident u m l) = m"
    "Incident.CodeSnip (ex_incident u m l) = ''stmt.execute(q)''"
    "Incident.Variables (ex_incident u m l) = YMap [(''name'', YStr ''q'')]"
    "Incident.LineNumber (ex_incident u m l) = l" for u m and l :: int
    by (simp_all add: ex_incident_def)
  have "\<exists>st v. ParseAppCatOutput ex_tc ex_world ''/out/proj1/appcat_output'' [] = Inr st
           \<and> map_of (incidentsDetails st) ''security-sql-injection-proj1/src/A.java-10'' = Some v
           \<and> ValidateIncident.RuleSet v = ''security''
           \<and> ValidateIncident.Rule v = ''sql-injection''
           \<and> ValidateIncident.Uri v = ''/repo/proj1/src/A.java''
           \<and> ValidateIncident.Message v = ''M''
           \<and> ValidateIncident.CodeSnip v = ''stmt.execute(q)''
           \<and> ValidateIncident.Variables v = YMap [(''name'', YStr ''q'')]
           \<and> ValidateIncident.LineNumber v = 10
           \<and> filter (\<lambda>e. fst e = ''security-sql-injection-proj1/src/A.java-10'') (incidentsDetails st)
               = [(''security-sql-injection-proj1/src/A.java-10'', v)]
           \<and> ''security-sql-injection-proj1/src/A.java-10'' \<in> set (duplicates_logged st)"
    using c unfolding ex_key_later ex_key_first f by blast
  then show ?thesis
    using ex_current_file ex_current_decode ex_incident_first ex_incident_later ex_entries_length
      ex_entries_same_key
    by (intro conjI)
qed

section \<open>The format of the incident key\<close>

lemma ex_uri_first:
  "\<not> (\<exists>pre' post'. ''/repo/proj1/src/A.java'' = pre' @ ''proj1'' @ post' \<and> length pre' < length ''/repo/'')"
proof
  assume "\<exists>pre' post'. ''/repo/proj1/src/A.java'' = pre' @ ''proj1'' @ post' \<and> length pre' < length ''/repo/''"
  then obtain pre' post' where e: "''/repo/proj1/src/A.java'' = pre' @ ''proj1'' @ post'"
    and l: "length pre' < length ''/repo/''" by blast
  have "strings_Index ''/repo/proj1/src/A.java'' ''proj1'' = 6" by simp
  then show False using strings_Index_le [OF e] l by simp
qed

lemma ex_uri_none: "\<not> (\<exists>pre post. ''/opt/checkout/src/A.java'' = pre @ ''proj1'' @ post)"
proof -
  have "strings_Index ''/opt/checkout/src/A.java'' ''proj1'' = - 1" by simp
  then show ?thesis using strings_Index_none [of "''/opt/checkout/src/A.java''" "''proj1''"] by blast
qed

lemma ex_entry_mem:
  "(''security-sql-injection-proj1/src/A.java-10'', ex_validate ''/repo/proj1/src/A.java'' ''M'' ''stmt.execute(q)'' 10)
     \<in> set (incidentsDetails ex_current_parsed)"
  by (simp add: ex_current_parsed_def ex_current_details_def)

text \<open>
  Claim C2.  The key of an incident is its rule-set, its rule, its normalized location and its
  line number in decimal, joined by \<open>-\<close>.  The normalized location is the location itself
  when the project name does not occur in it, and otherwise the project name followed by
  what comes after its first occurrence.  Every entry of the map that the parser returns
  stands under the key of its record.
\<close>

theorem incident_key_joins_fields:
  "incident_key P v =
      ValidateIncident.RuleSet v @ ''-'' @ ValidateIncident.Rule v @ ''-''
        @ tempPath P (ValidateIncident.Uri v) @ ''-'' @ Sprintf_d (ValidateIncident.LineNumber v)
   \<and> (\<not> (\<exists>pre post. ValidateIncident.Uri v = pre @ P @ post)
        \<longrightarrow> tempPath P (ValidateIncident.Uri v) = ValidateIncident.Uri v)
   \<and> (ValidateIncident.Uri v = pre @ P @ post
        \<and> \<not> (\<exists>pre' post'. ValidateIncident.Uri v = pre' @ P @ post' \<and> length pre' < length pre)
        \<longrightarrow> tempPath P (ValidateIncident.Uri v) = P @ post)
   \<and> (ParseAppCatOutput tc w outputPath presistPath = Inr st
        \<and> (key, vIncident) \<in> set (incidentsDetails st)
        \<longrightarrow> key = incident_key (TestCase.Name tc) vIncident)"
proof (intro conjI impI)
  show "incident_key P v =
      ValidateIncident.RuleSet v @ ''-'' @ ValidateIncident.Rule v @ ''-''
        @ tempPath P (ValidateIncident.Uri v) @ ''-'' @ Sprintf_d (ValidateIncident.LineNumber v)"
    by (simp add: incident_key_def)
next
  assume "\<not> (\<exists>pre post. ValidateIncident.Uri v = pre @ P @ post)"
  then show "tempPath P (ValidateIncident.Uri v) = ValidateIncident.Uri v"
    by (rule tempPath_not_found)
next
  assume a: "ValidateIncident.Uri v = pre @ P @ post
        \<and> \<not> (\<exists>pre' post'. ValidateIncident.Uri v = pre' @ P @ post' \<and> length pre' < length pre)"
  then have "\<forall>pre' post'. ValidateIncident.Uri v = pre' @ P @ post' \<longrightarrow> length pre \<le> length pre'"
    by (meson not_le)
  then show "tempPath P (ValidateIncident.Uri v) = P @ post"
    using a tempPath_found by blast
next
  assume a: "ParseAppCatOutput tc w outputPath presistPath = Inr st
        \<and> (key, vIncident) \<in> set (incidentsDetails st)"
  then obtain yamlContent where
    st: "st = record_all (TestCase.Name tc) (document_incidents yamlContent) parse_init"
    by (auto dest: ParseAppCatOutput_Inr)
  have "(key, vIncident) \<in> set (map (entry_of (TestCase.Name tc)) (document_incidents yamlContent))"
    using a record_all_details_subset [of "TestCase.Name tc" "document_incidents yamlContent" parse_init]
    unfolding st by (auto simp: parse_init_def)
  then show "key = incident_key (TestCase.Name tc) vIncident"
    by (auto simp: entry_of_def)
qed

theorem incident_key_joins_fields_witness:
  "incident_key ''proj1'' (ex_validate ''/repo/proj1/src/A.java'' ''M'' ''stmt.execute(q)'' 10)
      = ''security-sql-injection-proj1/src/A.java-10''
   \<and> \<not> (\<exists>pre post. ''/opt/checkout/src/A.java'' = pre @ ''proj1'' @ post)
   \<and> tempPath ''proj1'' ''/opt/checkout/src/A.java'' = ''/opt/checkout/src/A.java''
   \<and> ''/repo/proj1/src/A.java'' = ''/repo/'' @ ''proj1'' @ ''/src/A.java''
   \<and> \<not> (\<exists>pre' post'. ''/repo/proj1/src/A.java'' = pre' @ ''proj1'' @ post'
                        \<and> length pre' < length ''/repo/'')
   \<and> tempPath ''proj1'' ''/repo/proj1/src/A.java'' = ''proj1'' @ ''/src/A.java''
   \<and> ParseAppCatOutput ex_tc ex_world ''/out/proj1/appcat_output'' [] = Inr ex_current_parsed
   \<and> (''security-sql-injection-proj1/src/A.java-10'', ex_validate ''/repo/proj1/src/A.java'' ''M'' ''stmt.execute(q)'' 10)
        \<in> set (incidentsDetails ex_current_parsed)
   \<and> ''security-sql-injection-proj1/src/A.java-10''
        = incident_key (TestCase.Name ex_tc) (ex_validate ''/repo/proj1/src/A.java'' ''M'' ''stmt.execute(q)'' 10)"
proof -
  have a: "ValidateIncident.Uri (ex_validate u ''M'' ''stmt.execute(q)'' 10) = u" for u
    by (simp add: ex_validate_def)
  have k: "incident_key ''proj1'' (ex_validate ''/repo/proj1/src/A.java'' ''M'' ''stmt.execute(q)'' 10)
      = ''security-sql-injection-proj1/src/A.java-10''"
    by code_simp
  have split: "''/repo/proj1/src/A.java'' = ''/repo/'' @ ''proj1'' @ ''/src/A.java''" by simp
  note t1 = incident_key_joins_fields [of "''proj1''" "ex_validate ''/opt/checkout/src/A.java'' ''M'' ''stmt.execute(q)'' 10"
      "[]" "[]" ex_tc ex_world "''/out/proj1/appcat_output''" "[]" ex_current_parsed
      "''security-sql-injection-proj1/src/A.java-10''" "ex_validate ''/repo/proj1/src/A.java'' ''M'' ''stmt.execute(q)'' 10"]
  note t2 = incident_key_joins_fields [of "''proj1''" "ex_validate ''/repo/proj1/src/A.java'' ''M'' ''stmt.execute(q)'' 10"
      "''/repo/''" "''/src/A.java''" ex_tc ex_world "''/out/proj1/appcat_output''" "[]" ex_current_parsed
      "''security-sql-injection-proj1/src/A.java-10''" "ex_validate ''/repo/proj1/src/A.java'' ''M'' ''stmt.execute(q)'' 10"]
  have n: "tempPath ''proj1'' ''/opt/checkout/src/A.java'' = ''/opt/checkout/src/A.java''"
    using t1 [unfolded a] ex_uri_none by blast
  have f: "tempPath ''proj1'' ''/repo/proj1/src/A.java'' = ''proj1'' @ ''/src/A.java''"
    using t2 [unfolded a] ex_uri_first split by blast
  have p: "''security-sql-injection-proj1/src/A.java-10''
        = incident_key (TestCase.Name ex_tc) (ex_validate ''/repo/proj1/src/A.java'' ''M'' ''stmt.execute(q)'' 10)"
    using t2 ex_current_parse ex_entry_mem by blast
  show ?thesis using k ex_uri_none n split ex_uri_first f ex_current_parse ex_entry_mem p by blast
qed

section \<open>The comparison, key by key\<close>






lemma detail_distinct [simp]:
  "detail_NEW k \<noteq> detail_MISS k'" "detail_MISS k' \<noteq> detail_NEW k"
  "detail_WRONG k m m' \<noteq> detail_NEW k'" "detail_NEW k' \<noteq> detail_WRONG k m m'"
  "detail_WRONG k m m' \<noteq> detail_MISS k'" "detail_MISS k' \<noteq> detail_WRONG k m m'"
  by (simp_all add: detail_NEW_def detail_MISS_def detail_WRONG_def)












lemma check_incident_keys:
  "fst ` set (resultDetails (check_incident b (k, v) st)) =
     fst ` set (resultDetails st) \<union> set (newKeys [(k, v)] b) \<union> set (changedKeys [(k, v)] b)"
  by (auto simp: check_incident_def newKeys_def changedKeys_def dom_update split: option.splits)

lemma newKeys_Cons: "newKeys (e # c) b = newKeys [e] b @ newKeys c b"
  by (simp add: newKeys_def)

lemma changedKeys_Cons: "changedKeys (e # c) b = changedKeys [e] b @ changedKeys c b"
  by (simp add: changedKeys_def)

lemma first_loop_keys:
  "fst ` set (resultDetails (fold (check_incident b) c st)) =
     fst ` set (resultDetails st) \<union> set (newKeys c b) \<union> set (changedKeys c b)"
proof (induction c arbitrary: st)
  case Nil
  then show ?case by (simp add: newKeys_def changedKeys_def)
next
  case (Cons e c)
  obtain k v where e: "e = (k, v)" by (cases e)
  have "fst ` set (resultDetails (fold (check_incident b) (e # c) st)) =
          fst ` set (resultDetails (check_incident b (k, v) st))
            \<union> set (newKeys c b) \<union> set (changedKeys c b)"
    by (simp add: e Cons.IH)
  also have "\<dots> = fst ` set (resultDetails st)
            \<union> set (newKeys (e # c) b) \<union> set (changedKeys (e # c) b)"
    using newKeys_Cons [of "(k, v)" c b] changedKeys_Cons [of "(k, v)" c b]
    by (auto simp: check_incident_keys e)
  finally show ?case .
qed

lemma second_loop_keys:
  "fst ` set (resultDetails (fold (check_baseline c) b st)) =
     fst ` set (resultDetails st) \<union> set (missingKeys c b)"
proof (induction b arbitrary: st)
  case Nil
  then show ?case by (simp add: missingKeys_def)
next
  case (Cons e b)
  obtain k w where e: "e = (k, w)" by (cases e)
  have "fst ` set (resultDetails (check_baseline c (k, w) st))
          = fst ` set (resultDetails st) \<union> set (missingKeys c [(k, w)])"
    by (auto simp: check_baseline_def missingKeys_def dom_update)
  then show ?case
    by (auto simp: e Cons.IH missingKeys_def)
qed

lemma compare_incidents_keys:
  "fst ` set (resultDetails (compare_incidents c b))
     = set (newKeys c b) \<union> set (changedKeys c b) \<union> set (missingKeys c b)"
  by (simp add: compare_incidents_def second_loop_keys first_loop_keys)

lemma check_incident_result:
  "(result st \<longleftrightarrow> resultDetails st = []) \<Longrightarrow>
   (result (check_incident b e st) \<longleftrightarrow> resultDetails (check_incident b e st) = [])"
  by (cases e) (auto simp: check_incident_def split: option.splits)

lemma check_baseline_result:
  "(result st \<longleftrightarrow> resultDetails st = []) \<Longrightarrow>
   (result (check_baseline c e st) \<longleftrightarrow> resultDetails (check_baseline c e st) = [])"
  by (cases e) (auto simp: check_baseline_def)

lemma first_loop_result:
  "(result st \<longleftrightarrow> resultDetails st = []) \<Longrightarrow>
   (result (fold (check_incident b) c st) \<longleftrightarrow> resultDetails (fold (check_incident b) c st) = [])"
  by (induction c arbitrary: st) (simp_all add: check_incident_result)

lemma second_loop_result:
  "(result st \<longleftrightarrow> resultDetails st = []) \<Longrightarrow>
   (result (fold (check_baseline c) b st) \<longleftrightarrow> resultDetails (fold (check_baseline c) b st) = [])"
  by (induction b arbitrary: st) (simp_all add: check_baseline_result)

lemma compare_incidents_result:
  "result (compare_incidents c b) \<longleftrightarrow> resultDetails (compare_incidents c b) = []"
  unfolding compare_incidents_def
  by (intro second_loop_result first_loop_result) simp

lemma details_fold:
  "fold (\<lambda>(key, value) details. details @ value @ sep) caseResults acc
     = acc @ concat (map (\<lambda>(key, value). value @ sep) caseResults)"
  by (induction caseResults arbitrary: acc) (auto simp: case_prod_beta)

lemma Run_validate:
  assumes "Run tc w = Inr msg" and "containsAction (ActionList tc) ActionValidate"
  shows "\<exists>current baseline.
           ParseAppCatOutput tc w (getAppcatOutputFolder tc w) [] = Inr current
         \<and> ParseAppCatOutput tc w (BaseLineFolder tc) [] = Inr baseline
         \<and> msg = resultMessage (TestCase.Name tc)
                   (resultDetails (compare_incidents (incidentsDetails current) (incidentsDetails baseline)))
                   (range_order w
                      (resultDetails (compare_incidents (incidentsDetails current)
                                        (incidentsDetails baseline))))"
  using assms
  by (auto simp: Run_def RunValidate_def Fatalf_def split: sum.splits error.splits if_splits)

lemma check_incident_distinct:
  "distinct (map fst (resultDetails st)) \<Longrightarrow>
   distinct (map fst (resultDetails (check_incident b e st)))"
  by (cases e) (auto simp: check_incident_def distinct_update split: option.splits)

lemma check_baseline_distinct:
  "distinct (map fst (resultDetails st)) \<Longrightarrow>
   distinct (map fst (resultDetails (check_baseline c e st)))"
  by (cases e) (auto simp: check_baseline_def distinct_update)

lemma first_loop_distinct:
  "distinct (map fst (resultDetails st)) \<Longrightarrow>
   distinct (map fst (resultDetails (fold (check_incident b) c st)))"
  by (induction c arbitrary: st) (simp_all add: check_incident_distinct)

lemma second_loop_distinct:
  "distinct (map fst (resultDetails st)) \<Longrightarrow>
   distinct (map fst (resultDetails (fold (check_baseline c) b st)))"
  by (induction b arbitrary: st) (simp_all add: check_baseline_distinct)

lemma compare_incidents_distinct:
  "distinct (map fst (resultDetails (compare_incidents c b)))"
  unfolding compare_incidents_def
  by (intro second_loop_distinct first_loop_distinct) simp

lemma ranges_refl: "ranges m m"
  by (simp add: ranges_def)

lemma ranges_rev: "ranges (rev m) m"
  by (simp add: ranges_def)

lemma ranges_keys:
  assumes "ranges visited m" and "distinct (map fst m)"
  shows "fst ` set visited = fst ` set m" and "distinct (map fst visited)"
proof -
  show k: "fst ` set visited = fst ` set m" using assms(1) by (simp add: ranges_def)
  have "length (map fst visited) = length (map fst m)" using assms(1) by (simp add: ranges_def)
  also have "\<dots> = card (set (map fst m))" using distinct_card [OF assms(2)] by simp
  also have "\<dots> = card (set (map fst visited))" using k by simp
  finally show "distinct (map fst visited)" by (simp add: card_distinct)
qed
lemma list_all_update:
  "list_all P al \<Longrightarrow> P (k, v) \<Longrightarrow> list_all P (AList.update k v al)"
  by (induction al) auto

lemma check_incident_lines:
  "list_all names_its_key (resultDetails st) \<Longrightarrow>
   list_all names_its_key (resultDetails (check_incident b e st))"
proof -
  assume a: "list_all names_its_key (resultDetails st)"
  obtain k v where e: "e = (k, v)" by (cases e)
  have "names_its_key (k, detail_NEW k)" and "\<And>m m'. names_its_key (k, detail_WRONG k m m')"
    by (auto simp: names_its_key_def detail_NEW_def detail_WRONG_def)
  then show ?thesis
    using a by (auto simp: check_incident_def e list_all_update split: option.splits)
qed

lemma check_baseline_lines:
  "list_all names_its_key (resultDetails st) \<Longrightarrow>
   list_all names_its_key (resultDetails (check_baseline c e st))"
proof -
  assume a: "list_all names_its_key (resultDetails st)"
  obtain k v where e: "e = (k, v)" by (cases e)
  have "names_its_key (k, detail_MISS k)"
    by (auto simp: names_its_key_def detail_MISS_def)
  then show ?thesis
    using a by (auto simp: check_baseline_def e list_all_update)
qed

lemma first_loop_lines:
  "list_all names_its_key (resultDetails st) \<Longrightarrow>
   list_all names_its_key (resultDetails (fold (check_incident b) c st))"
  by (induction c arbitrary: st) (simp_all add: check_incident_lines)

lemma second_loop_lines:
  "list_all names_its_key (resultDetails st) \<Longrightarrow>
   list_all names_its_key (resultDetails (fold (check_baseline c) b st))"
  by (induction b arbitrary: st) (simp_all add: check_baseline_lines)

lemma compare_incidents_lines:
  "list_all names_its_key (resultDetails (compare_incidents c b))"
  unfolding compare_incidents_def
  by (intro second_loop_lines first_loop_lines) simp

lemma resultMessage_eq:
  "resultMessage name caseResults visited =
     (if caseResults = [] then ''- [x] <b>'' @ name @ ''</b>.''
      else ''- [ ] :x: <b>'' @ name @ ''</b>. '' @ [CHR 0x0A, CHR 0x0A]
             @ ''  <details>'' @ [CHR 0x0A] @ ''  <summary> Details </summary>''
             @ [CHR 0x0A, CHR 0x0A] @ ''  ''
             @ concat (map (\<lambda>(key, value). value @ [CHR 0x0A]) visited)
             @ [CHR 0x0A, CHR 0x0A] @ ''</details>'' @ [CHR 0x0A])"
  by (simp add: resultMessage_def details_fold ItemResultFormat_PASS_def ItemResultFormat_FAIL_def
      ItemResultFormat_DETAILS_def lineDelimiter_def)

lemma ex_baseline_parse:
  "ParseAppCatOutput ex_tc ex_world (BaseLineFolder ex_tc) [] = Inr ex_baseline_parsed"
  by code_simp

lemma ex_Run: "Run ex_tc ex_world = Inr ex_message"
  by code_simp

lemma ex_Run_reversed: "Run ex_tc ex_world_reversed = Inr ex_message_reversed"
  by code_simp


lemma ex_validates: "containsAction (ActionList ex_tc) ActionValidate"
  by code_simp

lemma ex_mismatch: "newKeys ex_current_details ex_baseline_details \<noteq> []"
  by code_simp

lemma ex_no_mismatch:
  "newKeys ex_current_details ex_current_details = []
   \<and> changedKeys ex_current_details ex_current_details = []
   \<and> missingKeys ex_current_details ex_current_details = []"
  by code_simp

section \<open>The classification of \<^verbatim>\<open>RunValidate\<close>\<close>





section \<open>Pass and fail\<close>

text \<open>
  Claim C3.  The result of a comparison is \<open>true\<close> exactly when there is no new, no changed
  and no missing key.  The keys of the details are exactly the new, changed and missing keys,
  each with one line, and each line is written in one of the three formats for the key it
  stands under.  The message is the pass line \<^verbatim>\<open>- [x] <b>name</b>.\<close> when there is no such
  key, and otherwise the fail line \<^verbatim>\<open>- [ ] :x: <b>name</b>.\<close> with a details block that holds
  the lines in the order in which the loop visits the details; whatever that order, the
  lines visited are those of the new, changed and missing keys, one for each key.  Whenever
  \<^verbatim>\<open>Run\<close> returns a message for a test case that is validated, both documents were parsed
  and the message is this one for their comparison, with the lines in the order of the run.
\<close>

theorem pass_iff_no_mismatch:
  "(result (compare_incidents current baseline)
      \<longleftrightarrow> newKeys current baseline = [] \<and> changedKeys current baseline = []
           \<and> missingKeys current baseline = [])
   \<and> fst ` set (resultDetails (compare_incidents current baseline))
        = set (newKeys current baseline) \<union> set (changedKeys current baseline)
            \<union> set (missingKeys current baseline)
   \<and> list_all names_its_key (resultDetails (compare_incidents current baseline))
   \<and> distinct (map fst (resultDetails (compare_incidents current baseline)))
   \<and> resultMessage name (resultDetails (compare_incidents current baseline)) visited
        = (if newKeys current baseline = [] \<and> changedKeys current baseline = []
              \<and> missingKeys current baseline = []
           then ''- [x] <b>'' @ name @ ''</b>.''
           else ''- [ ] :x: <b>'' @ name @ ''</b>. '' @ [CHR 0x0A, CHR 0x0A]
                  @ ''  <details>'' @ [CHR 0x0A] @ ''  <summary> Details </summary>''
                  @ [CHR 0x0A, CHR 0x0A] @ ''  ''
                  @ concat (map (\<lambda>(key, value). value @ [CHR 0x0A]) visited)
                  @ [CHR 0x0A, CHR 0x0A] @ ''</details>'' @ [CHR 0x0A])
   \<and> (ranges visited (resultDetails (compare_incidents current baseline)) \<longrightarrow>
        fst ` set visited
          = set (newKeys current baseline) \<union> set (changedKeys current baseline)
              \<union> set (missingKeys current baseline)
        \<and> distinct (map fst visited)
        \<and> list_all names_its_key visited)
   \<and> (Run tc w = Inr msg \<and> containsAction (ActionList tc) ActionValidate \<longrightarrow>
        (\<exists>cur base.
           ParseAppCatOutput tc w (getAppcatOutputFolder tc w) [] = Inr cur
         \<and> ParseAppCatOutput tc w (BaseLineFolder tc) [] = Inr base
         \<and> msg = (if newKeys (incidentsDetails cur) (incidentsDetails base) = []
                     \<and> changedKeys (incidentsDetails cur) (incidentsDetails base) = []
                     \<and> missingKeys (incidentsDetails cur) (incidentsDetails base) = []
                  then ''- [x] <b>'' @ TestCase.Name tc @ ''</b>.''
                  else ''- [ ] :x: <b>'' @ TestCase.Name tc @ ''</b>. '' @ [CHR 0x0A, CHR 0x0A]
                         @ ''  <details>'' @ [CHR 0x0A] @ ''  <summary> Details </summary>''
                         @ [CHR 0x0A, CHR 0x0A] @ ''  ''
                         @ concat (map (\<lambda>(key, value). value @ [CHR 0x0A])
                                     (range_order w
                                        (resultDetails
                                           (compare_incidents (incidentsDetails cur)
                                              (incidentsDetails base)))))
                         @ [CHR 0x0A, CHR 0x0A] @ ''</details>'' @ [CHR 0x0A])))"
proof -
  let ?d = "resultDetails (compare_incidents current baseline)"
  let ?none = "newKeys current baseline = [] \<and> changedKeys current baseline = []
           \<and> missingKeys current baseline = []"
  have keys: "fst ` set (resultDetails (compare_incidents c b))
                = set (newKeys c b) \<union> set (changedKeys c b) \<union> set (missingKeys c b)" for c b
    by (rule compare_incidents_keys)
  have empty: "resultDetails (compare_incidents c b) = []
                 \<longleftrightarrow> newKeys c b = [] \<and> changedKeys c b = [] \<and> missingKeys c b = []" for c b
  proof -
    have "resultDetails (compare_incidents c b) = []
            \<longleftrightarrow> fst ` set (resultDetails (compare_incidents c b)) = {}" by simp
    then show ?thesis unfolding keys by simp
  qed
  have message: "resultMessage n (resultDetails (compare_incidents c b)) v
        = (if newKeys c b = [] \<and> changedKeys c b = [] \<and> missingKeys c b = []
           then ''- [x] <b>'' @ n @ ''</b>.''
           else ''- [ ] :x: <b>'' @ n @ ''</b>. '' @ [CHR 0x0A, CHR 0x0A]
                  @ ''  <details>'' @ [CHR 0x0A] @ ''  <summary> Details </summary>''
                  @ [CHR 0x0A, CHR 0x0A] @ ''  ''
                  @ concat (map (\<lambda>(key, value). value @ [CHR 0x0A]) v)
                  @ [CHR 0x0A, CHR 0x0A] @ ''</details>'' @ [CHR 0x0A])" for n c b v
    unfolding resultMessage_eq using empty [of c b] by simp
  have 1: "result (compare_incidents current baseline) \<longleftrightarrow> ?none"
    using compare_incidents_result [of current baseline] empty [of current baseline] by simp
  have 3: "list_all names_its_key ?d" by (rule compare_incidents_lines)
  have 4: "distinct (map fst ?d)" by (rule compare_incidents_distinct)
  have 6: "ranges visited ?d \<longrightarrow>
        fst ` set visited
          = set (newKeys current baseline) \<union> set (changedKeys current baseline)
              \<union> set (missingKeys current baseline)
        \<and> distinct (map fst visited)
        \<and> list_all names_its_key visited"
  proof
    assume r: "ranges visited ?d"
    have k: "fst ` set visited
             = set (newKeys current baseline) \<union> set (changedKeys current baseline)
                 \<union> set (missingKeys current baseline)"
      using ranges_keys(1) [OF r 4] keys [of current baseline] by simp
    have d: "distinct (map fst visited)" by (rule ranges_keys(2) [OF r 4])
    have l: "list_all names_its_key visited"
      using 3 r by (simp add: list_all_iff ranges_def)
    show "fst ` set visited
          = set (newKeys current baseline) \<union> set (changedKeys current baseline)
              \<union> set (missingKeys current baseline)
        \<and> distinct (map fst visited)
        \<and> list_all names_its_key visited"
      using k d l by (intro conjI)
  qed
  have 7: "Run tc w = Inr msg \<and> containsAction (ActionList tc) ActionValidate \<longrightarrow>
        (\<exists>cur base.
           ParseAppCatOutput tc w (getAppcatOutputFolder tc w) [] = Inr cur
         \<and> ParseAppCatOutput tc w (BaseLineFolder tc) [] = Inr base
         \<and> msg = (if newKeys (incidentsDetails cur) (incidentsDetails base) = []
                     \<and> changedKeys (incidentsDetails cur) (incidentsDetails base) = []
                     \<and> missingKeys (incidentsDetails cur) (incidentsDetails base) = []
                  then ''- [x] <b>'' @ TestCase.Name tc @ ''</b>.''
                  else ''- [ ] :x: <b>'' @ TestCase.Name tc @ ''</b>. '' @ [CHR 0x0A, CHR 0x0A]
                         @ ''  <details>'' @ [CHR 0x0A] @ ''  <summary> Details </summary>''
                         @ [CHR 0x0A, CHR 0x0A] @ ''  ''
                         @ concat (map (\<lambda>(key, value). value @ [CHR 0x0A])
                                     (range_order w
                                        (resultDetails
                                           (compare_incidents (incidentsDetails cur)
                                              (incidentsDetails base)))))
                         @ [CHR 0x0A, CHR 0x0A] @ ''</details>'' @ [CHR 0x0A]))"
  proof
    assume a: "Run tc w = Inr msg \<and> containsAction (ActionList tc) ActionValidate"
    then obtain cur base where
      c: "ParseAppCatOutput tc w (getAppcatOutputFolder tc w) [] = Inr cur"
      and b: "ParseAppCatOutput tc w (BaseLineFolder tc) [] = Inr base"
      and m: "msg = resultMessage (TestCase.Name tc)
                   (resultDetails (compare_incidents (incidentsDetails cur) (incidentsDetails base)))
                   (range_order w
                      (resultDetails (compare_incidents (incidentsDetails cur)
                                        (incidentsDetails base))))"
      using Run_validate [of tc w msg] by blast
    show "\<exists>cur base.
           ParseAppCatOutput tc w (getAppcatOutputFolder tc w) [] = Inr cur
         \<and> ParseAppCatOutput tc w (BaseLineFolder tc) [] = Inr base
         \<and> msg = (if newKeys (incidentsDetails cur) (incidentsDetails base) = []
                     \<and> changedKeys (incidentsDetails cur) (incidentsDetails base) = []
                     \<and> missingKeys (incidentsDetails cur) (incidentsDetails base) = []
                  then ''- [x] <b>'' @ TestCase.Name tc @ ''</b>.''
                  else ''- [ ] :x: <b>'' @ TestCase.Name tc @ ''</b>. '' @ [CHR 0x0A, CHR 0x0A]
                         @ ''  <details>'' @ [CHR 0x0A] @ ''  <summary> Details </summary>''
                         @ [CHR 0x0A, CHR 0x0A] @ ''  ''
                         @ concat (map (\<lambda>(key, value). value @ [CHR 0x0A])
                                     (range_order w
                                        (resultDetails
                                           (compare_incidents (incidentsDetails cur)
                                              (incidentsDetails base)))))
                         @ [CHR 0x0A, CHR 0x0A] @ ''</details>'' @ [CHR 0x0A])"
      apply (rule exI [of _ cur])
      apply (rule exI [of _ base])
      apply (intro conjI)
        apply (rule c)
       apply (rule b)
      apply (simp only: m message)
      done
  qed
  show ?thesis using 1 keys [of current baseline] 3 4 message [of name current baseline visited] 6 7
    by (intro conjI)
qed

theorem pass_iff_no_mismatch_witness:
  "Run ex_tc ex_world = Inr ex_message
   \<and> Run ex_tc ex_world_reversed = Inr ex_message_reversed
   \<and> containsAction (ActionList ex_tc) ActionValidate
   \<and> (\<exists>cur base.
         ParseAppCatOutput ex_tc ex_world_reversed (getAppcatOutputFolder ex_tc ex_world_reversed) []
           = Inr cur
       \<and> ParseAppCatOutput ex_tc ex_world_reversed (BaseLineFolder ex_tc) [] = Inr base
       \<and> ex_message_reversed
           = (if newKeys (incidentsDetails cur) (incidentsDetails base) = []
                 \<and> changedKeys (incidentsDetails cur) (incidentsDetails base) = []
                 \<and> missingKeys (incidentsDetails cur) (incidentsDetails base) = []
              then ''- [x] <b>'' @ TestCase.Name ex_tc @ ''</b>.''
              else ''- [ ] :x: <b>'' @ TestCase.Name ex_tc @ ''</b>. '' @ [CHR 0x0A, CHR 0x0A]
                     @ ''  <details>'' @ [CHR 0x0A] @ ''  <summary> Details </summary>''
                     @ [CHR 0x0A, CHR 0x0A] @ ''  ''
                     @ concat (map (\<lambda>(key, value). value @ [CHR 0x0A])
                                 (range_order ex_world_reversed
                                    (resultDetails
                                       (compare_incidents (incidentsDetails cur)
                                          (incidentsDetails base)))))
                     @ [CHR 0x0A, CHR 0x0A] @ ''</details>'' @ [CHR 0x0A]))
   \<and> newKeys ex_current_details ex_baseline_details \<noteq> []
   \<and> \<not> result (compare_incidents ex_current_details ex_baseline_details)
   \<and> ranges (rev (resultDetails (compare_incidents ex_current_details ex_baseline_details)))
        (resultDetails (compare_incidents ex_current_details ex_baseline_details))
   \<and> distinct (map fst (rev (resultDetails (compare_incidents ex_current_details ex_baseline_details))))
   \<and> list_all names_its_key
        (rev (resultDetails (compare_incidents ex_current_details ex_baseline_details)))
   \<and> rev (resultDetails (compare_incidents ex_current_details ex_baseline_details))
        = [(''security-sql-injection-proj1/src/C.java-7'',
            ''[MISS]: security-sql-injection-proj1/src/C.java-7''),
           (''security-sql-injection-proj1/src/B.java-0'',
            ''[NEW] : security-sql-injection-proj1/src/B.java-0''),
           (''security-sql-injection-proj1/src/A.java-10'',
            ''[WRONG] :security-sql-injection-proj1/src/A.java-10 message mismatch: M != M2'')]
   \<and> resultMessage ''proj1'' (resultDetails (compare_incidents ex_current_details ex_baseline_details))
        (rev (resultDetails (compare_incidents ex_current_details ex_baseline_details)))
        = ''- [ ] :x: <b>proj1</b>. '' @ [CHR 0x0A, CHR 0x0A]
            @ ''  <details>'' @ [CHR 0x0A] @ ''  <summary> Details </summary>''
            @ [CHR 0x0A, CHR 0x0A] @ ''  ''
            @ concat (map (\<lambda>(key, value). value @ [CHR 0x0A])
                        (rev (resultDetails (compare_incidents ex_current_details ex_baseline_details))))
            @ [CHR 0x0A, CHR 0x0A] @ ''</details>'' @ [CHR 0x0A]
   \<and> result (compare_incidents ex_current_details ex_current_details)
   \<and> resultMessage ''proj1'' (resultDetails (compare_incidents ex_current_details ex_current_details))
        (resultDetails (compare_incidents ex_current_details ex_current_details))
        = ''- [x] <b>proj1</b>.''"
proof -
  let ?d = "resultDetails (compare_incidents ex_current_details ex_baseline_details)"
  let ?e = "resultDetails (compare_incidents ex_current_details ex_current_details)"
  note a = pass_iff_no_mismatch [of ex_current_details ex_baseline_details "''proj1''" "rev ?d"
      ex_tc ex_world_reversed ex_message_reversed]
  note b = pass_iff_no_mismatch [of ex_current_details ex_current_details "''proj1''" ?e
      ex_tc ex_world ex_message]
  have 1: "\<exists>cur base.
         ParseAppCatOutput ex_tc ex_world_reversed (getAppcatOutputFolder ex_tc ex_world_reversed) []
           = Inr cur
       \<and> ParseAppCatOutput ex_tc ex_world_reversed (BaseLineFolder ex_tc) [] = Inr base
       \<and> ex_message_reversed
           = (if newKeys (incidentsDetails cur) (incidentsDetails base) = []
                 \<and> changedKeys (incidentsDetails cur) (incidentsDetails base) = []
                 \<and> missingKeys (incidentsDetails cur) (incidentsDetails base) = []
              then ''- [x] <b>'' @ TestCase.Name ex_tc @ ''</b>.''
              else ''- [ ] :x: <b>'' @ TestCase.Name ex_tc @ ''</b>. '' @ [CHR 0x0A, CHR 0x0A]
                     @ ''  <details>'' @ [CHR 0x0A] @ ''  <summary> Details </summary>''
                     @ [CHR 0x0A, CHR 0x0A] @ ''  ''
                     @ concat (map (\<lambda>(key, value). value @ [CHR 0x0A])
                                 (range_order ex_world_reversed
                                    (resultDetails
                                       (compare_incidents (incidentsDetails cur)
                                          (incidentsDetails base)))))
                     @ [CHR 0x0A, CHR 0x0A] @ ''</details>'' @ [CHR 0x0A])"
    using a [THEN conjunct2, THEN conjunct2, THEN conjunct2, THEN conjunct2, THEN conjunct2,
          THEN conjunct2] ex_Run_reversed ex_validates
    by (rule_tac mp) simp_all
  have 2: "\<not> result (compare_incidents ex_current_details ex_baseline_details)"
    using a [THEN conjunct1] ex_mismatch by simp
  note r = a [THEN conjunct2, THEN conjunct2, THEN conjunct2, THEN conjunct2, THEN conjunct2,
      THEN conjunct1, THEN mp, OF ranges_rev]
  have 3: "distinct (map fst (rev ?d))" by (rule r [THEN conjunct2, THEN conjunct1])
  have 4: "list_all names_its_key (rev ?d)" by (rule r [THEN conjunct2, THEN conjunct2])
  have order: "rev ?d
        = [(''security-sql-injection-proj1/src/C.java-7'',
            ''[MISS]: security-sql-injection-proj1/src/C.java-7''),
           (''security-sql-injection-proj1/src/B.java-0'',
            ''[NEW] : security-sql-injection-proj1/src/B.java-0''),
           (''security-sql-injection-proj1/src/A.java-10'',
            ''[WRONG] :security-sql-injection-proj1/src/A.java-10 message mismatch: M != M2'')]"
    by code_simp
  have 5: "resultMessage ''proj1'' ?d (rev ?d)
        = ''- [ ] :x: <b>proj1</b>. '' @ [CHR 0x0A, CHR 0x0A]
            @ ''  <details>'' @ [CHR 0x0A] @ ''  <summary> Details </summary>''
            @ [CHR 0x0A, CHR 0x0A] @ ''  ''
            @ concat (map (\<lambda>(key, value). value @ [CHR 0x0A]) (rev ?d))
            @ [CHR 0x0A, CHR 0x0A] @ ''</details>'' @ [CHR 0x0A]"
    using a [THEN conjunct2, THEN conjunct2, THEN conjunct2, THEN conjunct2, THEN conjunct1]
      ex_mismatch
    by simp
  have 6: "result (compare_incidents ex_current_details ex_current_details)"
    using b [THEN conjunct1] ex_no_mismatch by simp
  have 7: "resultMessage ''proj1'' ?e ?e = ''- [x] <b>proj1</b>.''"
    using b [THEN conjunct2, THEN conjunct2, THEN conjunct2, THEN conjunct2, THEN conjunct1]
      ex_no_mismatch
    by simp
  show ?thesis
    using ex_Run ex_Run_reversed ex_validates 1 ex_mismatch 2 ranges_rev [of ?d] 3 4 order 5 6 7
    by (intro conjI)
qed

section \<open>What the decoder hands to the parser\<close>

lemma decode_Incidents_map:
  "decode_Incidents rs = Some is \<Longrightarrow>
   map (\<lambda>r. decode_triple (a, b, r)) rs = map (\<lambda>i. some_triple (a, b, i)) is"
  by (induction rs arbitrary: "is")
     (auto simp: decode_triple_def some_triple_def split: option.splits)

lemma decode_Violations_map:
  "decode_Violations vs = Some vs' \<Longrightarrow>
   map decode_triple (concat (map (\<lambda>(rn, v). map (\<lambda>r. (a, rn, r)) (Incidents v)) vs))
     = map some_triple (concat (map (\<lambda>(rn, v). map (\<lambda>i. (a, rn, i)) (Incidents v)) vs'))"
proof (induction vs arbitrary: vs')
  case Nil
  then show ?case by simp
next
  case (Cons e vs)
  obtain rn v where e: "e = (rn, v)" by (cases e)
  from Cons.prems obtain v' rest where
    v': "decode_Violation v = Some v'" and rest: "decode_Violations vs = Some rest"
    and vs': "vs' = (rn, v') # rest"
    by (auto simp: e split: option.splits)
  have "decode_Incidents (Incidents v) = Some (Incidents v')"
    using v' by (auto simp: decode_Violation_def)
  then have "map (\<lambda>r. decode_triple (a, rn, r)) (Incidents v)
               = map (\<lambda>i. some_triple (a, rn, i)) (Incidents v')"
    by (rule decode_Incidents_map)
  then show ?case using Cons.IH [OF rest] by (simp add: e vs' comp_def)
qed

lemma yaml_Unmarshal_map:
  "yaml_Unmarshal raw = Some doc \<Longrightarrow>
   map decode_triple (document_incidents raw) = map some_triple (document_incidents doc)"
proof (induction raw arbitrary: doc)
  case Nil
  then show ?case by (simp add: document_incidents_def)
next
  case (Cons s raw)
  from Cons.prems obtain s' rest where
    s': "decode_RuleSet s = Some s'" and rest: "yaml_Unmarshal raw = Some rest"
    and doc: "doc = s' # rest"
    by (auto split: option.splits)
  have tail: "map decode_triple (document_incidents raw) = map some_triple (document_incidents rest)"
    by (rule Cons.IH [OF rest])
  have head: "map decode_triple
          (case Violations s of None \<Rightarrow> []
           | Some violations \<Rightarrow>
               concat (map (\<lambda>(ruleName, violation).
                         map (\<lambda>incident. (RuleSet.Name s, ruleName, incident)) (Incidents violation))
                       violations))
        = map some_triple
          (case Violations s' of None \<Rightarrow> []
           | Some violations \<Rightarrow>
               concat (map (\<lambda>(ruleName, violation).
                         map (\<lambda>incident. (RuleSet.Name s', ruleName, incident)) (Incidents violation))
                       violations))"
  proof (cases "Violations s")
    case None
    then show ?thesis using s' by (auto simp: decode_RuleSet_def)
  next
    case (Some vs)
    then obtain vs' where "decode_Violations vs = Some vs'"
      and "Violations s' = Some vs'" and "RuleSet.Name s' = RuleSet.Name s"
      using s' by (auto simp: decode_RuleSet_def)
    then show ?thesis using Some decode_Violations_map [of vs vs' "RuleSet.Name s"] by simp
  qed
  show ?case using head tail by (simp add: doc document_incidents_def)
qed

lemma copied_from_decoded:
  "decode_triple e = some_triple d \<Longrightarrow> copied_from e (entry_of n d)"
  by (cases e; cases d)
     (auto simp: decode_triple_def some_triple_def copied_from_def entry_of_def vIncident_of_def
        decode_Incident_def)

lemma yaml_Unmarshal_copied:
  assumes "yaml_Unmarshal raw = Some doc"
  shows "list_all2 copied_from (document_incidents raw) (document_entries n doc)"
proof -
  have m: "map decode_triple (document_incidents raw) = map some_triple (document_incidents doc)"
    using assms by (rule yaml_Unmarshal_map)
  then have len: "length (document_incidents raw) = length (document_incidents doc)"
    by (metis length_map)
  have "copied_from (document_incidents raw ! i) (document_entries n doc ! i)"
    if "i < length (document_incidents raw)" for i
  proof -
    have "decode_triple (document_incidents raw ! i) = some_triple (document_incidents doc ! i)"
      using m that len by (metis nth_map)
    then show ?thesis using that len by (simp add: document_entries_def copied_from_decoded)
  qed
  then show ?thesis using len by (simp add: list_all2_conv_all_nth document_entries_def)
qed

lemma undecodable_lineNumber:
  assumes "(rs, rn, r) \<in> set (document_incidents raw)" and "decode_int (Incident.LineNumber r) = None"
  shows "yaml_Unmarshal raw = None"
proof (rule ccontr)
  assume "yaml_Unmarshal raw \<noteq> None"
  then obtain doc where "yaml_Unmarshal raw = Some doc" by auto
  then have m: "map decode_triple (document_incidents raw) = map some_triple (document_incidents doc)"
    by (rule yaml_Unmarshal_map)
  have "decode_triple (rs, rn, r) \<in> set (map decode_triple (document_incidents raw))"
    using assms(1) by (metis imageI set_map)
  then have "decode_triple (rs, rn, r) \<in> set (map some_triple (document_incidents doc))"
    by (simp only: m)
  then obtain d where "decode_triple (rs, rn, r) = some_triple d" by auto
  then show False using assms(2)
    by (cases d) (auto simp: decode_triple_def some_triple_def decode_Incident_def)
qed

lemma ex_text_file:
  "output_yaml (ex_world_with (Content ex_text_line)) ''/out/proj1/appcat_output'' = Content ex_text_line"
  by (simp add: ex_world_with_def)

lemma ex_text_member:
  "(''security'', ''sql-injection'', ex_incident ''/repo/proj1/src/A.java'' ''M'' (NotIntLine ''ten''))
     \<in> set (document_incidents ex_text_line)"
  by code_simp

lemma ex_entries_subset:
  "set (incidentsDetails ex_current_parsed) \<subseteq> set (document_entries (TestCase.Name ex_tc) ex_current_decoded)"
  by code_simp

lemma ex_current_first:
  "document_incidents ex_current ! 0
     = (''security'', ''sql-injection'', ex_incident ''/repo/proj1/src/A.java'' ''M'' (IntLine 10))"
  by code_simp

lemma ex_current_third:
  "document_incidents ex_current ! 2
     = (''security'', ''sql-injection'', ex_incident ''/repo/proj1/src/B.java'' ''N'' NoLineNumber)"
  by code_simp

lemma ex_current_length: "2 < length (document_incidents ex_current)"
  by code_simp

lemma ex_first_line:
  "Incident.LineNumber (ex_incident ''/repo/proj1/src/A.java'' ''M'' (IntLine 10)) = IntLine 10"
  by (simp add: ex_incident_def)

lemma ex_third_line:
  "Incident.LineNumber (ex_incident ''/repo/proj1/src/B.java'' ''N'' NoLineNumber) = NoLineNumber"
  by (simp add: ex_incident_def)

lemma ex_text_line_class:
  "Incident.LineNumber (ex_incident ''/repo/proj1/src/A.java'' ''M'' (NotIntLine ''ten''))
     = NotIntLine ''ten''"
  by (simp add: ex_incident_def)

text \<open>
  Claim C6, as the code has it.  For a document that decodes, the record the parser builds for
  an incident has every field of the incident as it stands in the file, the line number
  being the integer the decoder stores: the entries built correspond one to one, in order, to
  the incidents of the file, and the entries of the returned map are among them.  In the
  record of an incident without a line number the line number is 0; in the record of an
  incident whose line number is a number it is the value the decoder stores for that number;
  and no incident of a document that decodes has a line number that the decoder refuses.
  For a document holding an incident whose line number the decoder refuses, the parser
  ends the process and returns no record at all.
\<close>

theorem fields_copied_lineNumber_decoded:
  "(yaml_Unmarshal raw = Some yamlContent \<longrightarrow>
      list_all2 copied_from (document_incidents raw) (document_entries (TestCase.Name tc) yamlContent))
   \<and> (output_yaml w outputPath = Content raw \<and> yaml_Unmarshal raw = Some yamlContent
        \<and> ParseAppCatOutput tc w outputPath presistPath = Inr st
        \<longrightarrow> set (incidentsDetails st) \<subseteq> set (document_entries (TestCase.Name tc) yamlContent))
   \<and> (yaml_Unmarshal raw = Some yamlContent \<and> i < length (document_incidents raw)
        \<and> document_incidents raw ! i = (rulesetName', ruleName', r')
        \<longrightarrow> (Incident.LineNumber r' = NoLineNumber
                \<and> ValidateIncident.LineNumber
                      (snd (document_entries (TestCase.Name tc) yamlContent ! i)) = 0)
            \<or> (\<exists>n. Incident.LineNumber r' = IntLine n
                  \<and> ValidateIncident.LineNumber
                      (snd (document_entries (TestCase.Name tc) yamlContent ! i)) = n))
   \<and> (output_yaml w outputPath = Content raw
        \<and> (rulesetName, ruleName, r) \<in> set (document_incidents raw)
        \<and> Incident.LineNumber r = NotIntLine text
        \<longrightarrow> ParseAppCatOutput tc w outputPath presistPath = Inl ProcessExit)"
proof -
  have 1: "yaml_Unmarshal raw = Some yamlContent \<longrightarrow>
      list_all2 copied_from (document_incidents raw) (document_entries (TestCase.Name tc) yamlContent)"
    using yaml_Unmarshal_copied by blast
  have 2: "output_yaml w outputPath = Content raw \<and> yaml_Unmarshal raw = Some yamlContent
        \<and> ParseAppCatOutput tc w outputPath presistPath = Inr st
        \<longrightarrow> set (incidentsDetails st) \<subseteq> set (document_entries (TestCase.Name tc) yamlContent)"
  proof
    assume a: "output_yaml w outputPath = Content raw \<and> yaml_Unmarshal raw = Some yamlContent
        \<and> ParseAppCatOutput tc w outputPath presistPath = Inr st"
    then have "st = record_all (TestCase.Name tc) (document_incidents yamlContent) parse_init"
      by (auto dest!: ParseAppCatOutput_Inr)
    then show "set (incidentsDetails st) \<subseteq> set (document_entries (TestCase.Name tc) yamlContent)"
      using record_all_details_subset [of "TestCase.Name tc" "document_incidents yamlContent" parse_init]
      by (simp add: parse_init_def document_entries_def)
  qed
  have 3: "yaml_Unmarshal raw = Some yamlContent \<and> i < length (document_incidents raw)
        \<and> document_incidents raw ! i = (rulesetName', ruleName', r')
        \<longrightarrow> (Incident.LineNumber r' = NoLineNumber
                \<and> ValidateIncident.LineNumber
                      (snd (document_entries (TestCase.Name tc) yamlContent ! i)) = 0)
            \<or> (\<exists>n. Incident.LineNumber r' = IntLine n
                  \<and> ValidateIncident.LineNumber
                      (snd (document_entries (TestCase.Name tc) yamlContent ! i)) = n)"
  proof
    assume a: "yaml_Unmarshal raw = Some yamlContent \<and> i < length (document_incidents raw)
        \<and> document_incidents raw ! i = (rulesetName', ruleName', r')"
    then have la: "list_all2 copied_from (document_incidents raw)
                 (document_entries (TestCase.Name tc) yamlContent)"
      using yaml_Unmarshal_copied by blast
    have i: "i < length (document_incidents raw)" using a by simp
    have "copied_from (document_incidents raw ! i)
                 (document_entries (TestCase.Name tc) yamlContent ! i)"
      by (rule list_all2_nthD [OF la i])
    then have "decode_int (Incident.LineNumber r')
                 = Some (ValidateIncident.LineNumber
                           (snd (document_entries (TestCase.Name tc) yamlContent ! i)))"
      using a by (simp add: copied_from_def split: prod.splits)
    then show "(Incident.LineNumber r' = NoLineNumber
                \<and> ValidateIncident.LineNumber
                      (snd (document_entries (TestCase.Name tc) yamlContent ! i)) = 0)
            \<or> (\<exists>n. Incident.LineNumber r' = IntLine n
                  \<and> ValidateIncident.LineNumber
                      (snd (document_entries (TestCase.Name tc) yamlContent ! i)) = n)"
      by (cases "Incident.LineNumber r'") simp_all
  qed
  have 4: "output_yaml w outputPath = Content raw
        \<and> (rulesetName, ruleName, r) \<in> set (document_incidents raw)
        \<and> Incident.LineNumber r = NotIntLine text
        \<longrightarrow> ParseAppCatOutput tc w outputPath presistPath = Inl ProcessExit"
  proof
    assume a: "output_yaml w outputPath = Content raw
        \<and> (rulesetName, ruleName, r) \<in> set (document_incidents raw)
        \<and> Incident.LineNumber r = NotIntLine text"
    then have "decode_int (Incident.LineNumber r) = None" by simp
    then have "yaml_Unmarshal raw = None" using a undecodable_lineNumber by blast
    then show "ParseAppCatOutput tc w outputPath presistPath = Inl ProcessExit"
      using a by (simp add: ParseAppCatOutput_def Fatalf_def)
  qed
  show ?thesis using 1 2 3 4 by (intro conjI)
qed

theorem fields_copied_lineNumber_decoded_witness:
  "yaml_Unmarshal ex_current = Some ex_current_decoded
   \<and> list_all2 copied_from (document_incidents ex_current)
        (document_entries (TestCase.Name ex_tc) ex_current_decoded)
   \<and> output_yaml ex_world ''/out/proj1/appcat_output'' = Content ex_current
   \<and> ParseAppCatOutput ex_tc ex_world ''/out/proj1/appcat_output'' [] = Inr ex_current_parsed
   \<and> set (incidentsDetails ex_current_parsed)
        \<subseteq> set (document_entries (TestCase.Name ex_tc) ex_current_decoded)
   \<and> 2 < length (document_incidents ex_current)
   \<and> document_incidents ex_current ! 0
        = (''security'', ''sql-injection'', ex_incident ''/repo/proj1/src/A.java'' ''M'' (IntLine 10))
   \<and> ValidateIncident.LineNumber
        (snd (document_entries (TestCase.Name ex_tc) ex_current_decoded ! 0)) = 10
   \<and> document_incidents ex_current ! 2
        = (''security'', ''sql-injection'', ex_incident ''/repo/proj1/src/B.java'' ''N'' NoLineNumber)
   \<and> ValidateIncident.LineNumber
        (snd (document_entries (TestCase.Name ex_tc) ex_current_decoded ! 2)) = 0
   \<and> output_yaml (ex_world_with (Content ex_text_line)) ''/out/proj1/appcat_output''
        = Content ex_text_line
   \<and> (''security'', ''sql-injection'', ex_incident ''/repo/proj1/src/A.java'' ''M'' (NotIntLine ''ten''))
        \<in> set (document_incidents ex_text_line)
   \<and> Incident.LineNumber (ex_incident ''/repo/proj1/src/A.java'' ''M'' (NotIntLine ''ten''))
        = NotIntLine ''ten''
   \<and> ParseAppCatOutput ex_tc (ex_world_with (Content ex_text_line)) ''/out/proj1/appcat_output'' []
        = Inl ProcessExit"
proof -
  note a = fields_copied_lineNumber_decoded [of ex_current ex_current_decoded ex_tc ex_world
      "''/out/proj1/appcat_output''" "[]" ex_current_parsed 0 "''security''" "''sql-injection''"
      "ex_incident ''/repo/proj1/src/A.java'' ''M'' (IntLine 10)"]
  note c = fields_copied_lineNumber_decoded [of ex_current ex_current_decoded ex_tc ex_world
      "''/out/proj1/appcat_output''" "[]" ex_current_parsed 2 "''security''" "''sql-injection''"
      "ex_incident ''/repo/proj1/src/B.java'' ''N'' NoLineNumber"]
  note b = fields_copied_lineNumber_decoded [of ex_text_line _ ex_tc "ex_world_with (Content ex_text_line)"
      "''/out/proj1/appcat_output''" "[]" _ _ _ _ _ "''security''" "''sql-injection''"
      "ex_incident ''/repo/proj1/src/A.java'' ''M'' (NotIntLine ''ten'')" "''ten''"]
  have 1: "list_all2 copied_from (document_incidents ex_current)
        (document_entries (TestCase.Name ex_tc) ex_current_decoded)"
    using a [THEN conjunct1] ex_current_decode by (rule mp)
  have 2: "set (incidentsDetails ex_current_parsed)
        \<subseteq> set (document_entries (TestCase.Name ex_tc) ex_current_decoded)"
    using a [THEN conjunct2, THEN conjunct1] ex_current_file ex_current_parse ex_current_decode
    by simp
  have l0: "0 < length (document_incidents ex_current)" using ex_current_length by arith
  have 3: "ValidateIncident.LineNumber
        (snd (document_entries (TestCase.Name ex_tc) ex_current_decoded ! 0)) = 10"
    using a [THEN conjunct2, THEN conjunct2, THEN conjunct1] ex_current_decode l0
      ex_current_first ex_first_line
    by simp
  have 4: "ValidateIncident.LineNumber
        (snd (document_entries (TestCase.Name ex_tc) ex_current_decoded ! 2)) = 0"
    using c [THEN conjunct2, THEN conjunct2, THEN conjunct1] ex_current_decode ex_current_length
      ex_current_third ex_third_line
    by simp
  have 5: "ParseAppCatOutput ex_tc (ex_world_with (Content ex_text_line)) ''/out/proj1/appcat_output'' []
        = Inl ProcessExit"
    using b [THEN conjunct2, THEN conjunct2, THEN conjunct2]
      ex_text_file ex_text_member ex_text_line_class
    by simp
  show ?thesis
    using ex_current_decode 1 ex_current_file ex_current_parse 2 ex_current_length
      ex_current_first 3 ex_current_third 4 ex_text_file ex_text_member ex_text_line_class 5
    by (intro conjI)
qed

text \<open>
  The claim as the specification words it fails on a document whose only incident has the
  line number \<open>ten\<close>, an entry that the decoder refuses for an integer field: the parser
  does not return, so no record holds the value of the file.
\<close>

theorem text_lineNumber_counterexample:
  "document_incidents ex_text_line
     = [(''security'', ''sql-injection'', ex_incident ''/repo/proj1/src/A.java'' ''M'' (NotIntLine ''ten''))]
   \<and> output_yaml (ex_world_with (Content ex_text_line))
        (getAppcatOutputFolder ex_tc (ex_world_with (Content ex_text_line)))
       = Content ex_text_line
   \<and> ParseAppCatOutput ex_tc (ex_world_with (Content ex_text_line))
        (getAppcatOutputFolder ex_tc (ex_world_with (Content ex_text_line))) []
       = Inl ProcessExit"
  by code_simp

section \<open>Failures of the parser\<close>

lemma ParseAppCatOutput_exits:
  "output_yaml w outputPath = Absent \<or> output_yaml w outputPath = Unreadable
     \<or> output_yaml w outputPath = NotRuleSets \<Longrightarrow>
   ParseAppCatOutput tc w outputPath presistPath = Inl ProcessExit"
  by (auto simp: ParseAppCatOutput_def Fatalf_def)

lemma ParseAppCatOutput_never_Err: "ParseAppCatOutput tc w outputPath presistPath \<noteq> Inl (Err e)"
proof -
  have a: "incidents_loop n w p rs rn i xs st \<noteq> Inl (Err e)" for n p rs rn i xs st
    by (induction xs arbitrary: i st)
       (auto simp: Let_def persist_incident_def Fatalf_def split: sum.splits if_splits)
  have b: "violations_loop n w p rs vs st \<noteq> Inl (Err e)" for n p rs vs st
    by (induction vs arbitrary: st) (auto simp: a split: sum.splits if_splits)
  have c: "rulesets_loop n w p doc st \<noteq> Inl (Err e)" for n p doc st
    by (induction doc arbitrary: st) (auto simp: b split: sum.splits option.splits)
  show ?thesis
    by (auto simp: ParseAppCatOutput_def Fatalf_def c split: file_state.splits option.splits)
qed

lemma run_testCases_exits:
  "Run testCase w = Inl ProcessExit \<Longrightarrow> run_testCases w (testCase # rest) testResults = Inl ProcessExit"
  by simp

text \<open>
  Claim C5, evaluated.  With no \<^verbatim>\<open>output.yaml\<close> for \<open>proj1\<close>, the parser,
  \<^verbatim>\<open>RunAnalyze\<close>, \<^verbatim>\<open>RunValidate\<close> and \<^verbatim>\<open>Run\<close> end the process, and so does the loop of \<^verbatim>\<open>main\<close> over \<open>proj1\<close> and
  \<open>proj2\<close>, although \<open>proj2\<close> alone passes; the same holds for a file that is not a list of
  rule-sets.  No result is returned for \<open>proj1\<close>, and \<open>proj2\<close> is never run.
\<close>

theorem missing_document_ends_the_process:
  "ParseAppCatOutput ex_tc (ex_world_with Absent) (getAppcatOutputFolder ex_tc (ex_world_with Absent)) []
     = Inl ProcessExit
   \<and> RunAnalyze ex_tc (ex_world_with Absent) = Inl ProcessExit
   \<and> RunValidate ex_tc (ex_world_with Absent) = Inl ProcessExit
   \<and> Run ex_tc (ex_world_with Absent) = Inl ProcessExit
   \<and> Run ex_tc2 (ex_world_with Absent) = Inr (ItemResultFormat_PASS ''proj2'')
   \<and> run_testCases (ex_world_with Absent) [ex_tc, ex_tc2] [] = Inl ProcessExit
   \<and> run_testCases (ex_world_with Absent) [ex_tc2] [] = Inr [(''proj2'', ItemResultFormat_PASS ''proj2'')]
   \<and> Run ex_tc (ex_world_with NotRuleSets) = Inl ProcessExit
   \<and> run_testCases (ex_world_with NotRuleSets) [ex_tc, ex_tc2] [] = Inl ProcessExit"
  by code_simp

section \<open>The summary tables\<close>

lemma store_count_lookup:
  "stored_count (store_count t (r, c) g) r' t' =
     (if r' = r \<and> t' = t then Some c else stored_count g r' t')"
  by (auto simp: stored_count_def store_count_def update_conv' split: option.splits)

lemma store_count_keys: "fst ` set (store_count t (r, c) g) = insert r (fst ` set g)"
  by (simp add: store_count_def dom_update)

lemma store_count_distinct:
  "distinct (map fst g) \<Longrightarrow> distinct (map fst (store_count t e g))"
  by (cases e) (simp add: store_count_def distinct_update)

lemma store_counts_lookup:
  "distinct (map fst rd) \<Longrightarrow>
   stored_count (fold (store_count t) rd g) r' t' =
     (if t' = t then (case map_of rd r' of Some c \<Rightarrow> Some c | None \<Rightarrow> stored_count g r' t')
      else stored_count g r' t')"
proof (induction rd arbitrary: g)
  case Nil
  then show ?case by simp
next
  case (Cons e rd)
  obtain r c where e: "e = (r, c)" by (cases e)
  have d: "distinct (map fst rd)" and n: "map_of rd r = None"
    using Cons.prems by (auto simp: e map_of_eq_None_iff)
  show ?case
    using n by (auto simp: e Cons.IH [OF d] store_count_lookup split: option.splits)
qed

lemma store_counts_keys:
  "fst ` set (fold (store_count t) rd g) = fst ` set rd \<union> fst ` set g"
proof (induction rd arbitrary: g)
  case Nil
  then show ?case by simp
next
  case (Cons e rd)
  obtain r c where e: "e = (r, c)" by (cases e)
  show ?case by (auto simp: e Cons.IH store_count_keys)
qed

lemma store_counts_distinct:
  "distinct (map fst g) \<Longrightarrow> distinct (map fst (fold (store_count t) rd g))"
  by (induction rd arbitrary: g) (simp_all add: store_count_distinct)

lemma collect_from_lookup:
  "distinct (map fst analyzed) \<Longrightarrow> \<forall>(t, rd) \<in> set analyzed. distinct (map fst rd) \<Longrightarrow>
   stored_count (collect_from analyzed g) r' t' =
     (case map_of analyzed t' of
        None \<Rightarrow> stored_count g r' t'
      | Some rd \<Rightarrow> (case map_of rd r' of Some c \<Rightarrow> Some c | None \<Rightarrow> stored_count g r' t'))"
proof (induction analyzed arbitrary: g)
  case Nil
  then show ?case by (simp add: collect_from_def)
next
  case (Cons e analyzed)
  obtain t rd where e: "e = (t, rd)" by (cases e)
  have d: "distinct (map fst analyzed)" and n: "map_of analyzed t = None"
    and drd: "distinct (map fst rd)" and rest: "\<forall>(t, rd) \<in> set analyzed. distinct (map fst rd)"
    using Cons.prems by (auto simp: e map_of_eq_None_iff)
  have step: "collect_from (e # analyzed) g = collect_from analyzed (fold (store_count t) rd g)"
    by (simp add: collect_from_def e)
  show ?case
    unfolding step Cons.IH [OF d rest]
    using n by (auto simp: e store_counts_lookup [OF drd] split: option.splits)
qed

lemma collect_from_keys:
  "fst ` set (collect_from analyzed g) = (\<Union>(t, rd) \<in> set analyzed. fst ` set rd) \<union> fst ` set g"
proof (induction analyzed arbitrary: g)
  case Nil
  then show ?case by (simp add: collect_from_def)
next
  case (Cons e analyzed)
  obtain t rd where e: "e = (t, rd)" by (cases e)
  have step: "collect_from (e # analyzed) g = collect_from analyzed (fold (store_count t) rd g)"
    by (simp add: collect_from_def e)
  show ?case unfolding step Cons.IH by (auto simp: e store_counts_keys)
qed

lemma collect_from_distinct:
  "distinct (map fst g) \<Longrightarrow> distinct (map fst (collect_from analyzed g))"
proof (induction analyzed arbitrary: g)
  case Nil
  then show ?case by (simp add: collect_from_def)
next
  case (Cons e analyzed)
  obtain t rd where e: "e = (t, rd)" by (cases e)
  have step: "collect_from (e # analyzed) g = collect_from analyzed (fold (store_count t) rd g)"
    by (simp add: collect_from_def e)
  show ?case unfolding step using Cons.prems by (intro Cons.IH store_counts_distinct)
qed

lemma collect_globalRulesDetails_from: "collect_globalRulesDetails analyzed = collect_from analyzed []"
  by (simp add: collect_globalRulesDetails_def collect_from_def)

lemma global_rowValue_fold:
  "fold (\<lambda>target rowValue.
           (case map_of targetHash target of
              Some count \<Rightarrow> rowValue @ '','' @ Sprintf_d (int count)
            | None \<Rightarrow> rowValue @ '',0''))
     targetList acc
   = acc @ concat (map (\<lambda>target. zero_cell (map_of targetHash target)) targetList)"
  by (induction targetList arbitrary: acc) (auto simp: zero_cell_def split: option.splits)

lemma global_rowValue_cells:
  "global_rowValue targetList (rule, targetHash)
     = rule @ concat (map (\<lambda>target. zero_cell (map_of targetHash target)) targetList)"
  by (simp add: global_rowValue_def global_rowValue_fold)

lemma full_rowValue_fold:
  "fold (\<lambda>target rowValue.
             (case map_of fullIncidentDetails target of
                Some targetHash \<Rightarrow>
                  (case map_of targetHash rule of
                     Some count \<Rightarrow> rowValue @ '','' @ Sprintf_d (int count)
                   | None \<Rightarrow> rowValue @ '', '')
              | None \<Rightarrow> rowValue @ '', ''))
       targetList acc
   = acc @ concat (map (\<lambda>target.
                     blank_cell (case map_of fullIncidentDetails target of
                                   None \<Rightarrow> None | Some targetHash \<Rightarrow> map_of targetHash rule))
                   targetList)"
  by (induction targetList arbitrary: acc) (auto simp: blank_cell_def split: option.splits)

lemma full_rowValue_cells:
  "full_rowValue targetList fullIncidentDetails rule
     = rule @ concat (map (\<lambda>target.
                     blank_cell (case map_of fullIncidentDetails target of
                                   None \<Rightarrow> None | Some targetHash \<Rightarrow> map_of targetHash rule))
                   targetList)"
  by (simp add: full_rowValue_def full_rowValue_fold)

lemma merge_rule_keys: "fst ` set (merge_rule (r, c) rules) = insert r (fst ` set rules)"
  by (simp add: merge_rule_def dom_update split: option.splits)

lemma merge_rule_distinct: "distinct (map fst rules) \<Longrightarrow> distinct (map fst (merge_rule e rules))"
  by (cases e) (simp add: merge_rule_def distinct_update split: option.splits)

lemma merge_rules_keys: "fst ` set (fold merge_rule h rules) = fst ` set h \<union> fst ` set rules"
proof (induction h arbitrary: rules)
  case Nil
  then show ?case by simp
next
  case (Cons e h)
  obtain r c where e: "e = (r, c)" by (cases e)
  show ?case by (auto simp: e Cons.IH merge_rule_keys)
qed

lemma merge_rules_distinct:
  "distinct (map fst rules) \<Longrightarrow> distinct (map fst (fold merge_rule h rules))"
  by (induction h arbitrary: rules) (simp_all add: merge_rule_distinct)

lemma collect_rules_from_keys:
  "fst ` set (collect_rules_from full rules) = (\<Union>(t, h) \<in> set full. fst ` set h) \<union> fst ` set rules"
proof (induction full arbitrary: rules)
  case Nil
  then show ?case by (simp add: collect_rules_from_def)
next
  case (Cons e full)
  obtain t h where e: "e = (t, h)" by (cases e)
  have step: "collect_rules_from (e # full) rules = collect_rules_from full (fold merge_rule h rules)"
    by (simp add: collect_rules_from_def e)
  show ?case unfolding step Cons.IH by (auto simp: e merge_rules_keys)
qed

lemma collect_rules_from_distinct:
  "distinct (map fst rules) \<Longrightarrow> distinct (map fst (collect_rules_from full rules))"
proof (induction full arbitrary: rules)
  case Nil
  then show ?case by (simp add: collect_rules_from_def)
next
  case (Cons e full)
  obtain t h where e: "e = (t, h)" by (cases e)
  have step: "collect_rules_from (e # full) rules = collect_rules_from full (fold merge_rule h rules)"
    by (simp add: collect_rules_from_def e)
  show ?case unfolding step using Cons.prems by (intro Cons.IH merge_rules_distinct)
qed

lemma collect_rules_from_empty: "collect_rules full = collect_rules_from full []"
  by (simp add: collect_rules_def collect_rules_from_def)

lemma stored_count_Nil: "stored_count [] r t = None"
  by (simp add: stored_count_def)

lemma global_row_of_rule:
  assumes d: "distinct (map fst analyzed)"
    and dr: "\<forall>(target, rulesDetails) \<in> set analyzed. distinct (map fst rulesDetails)"
    and mem: "(rule, targetHash) \<in> set (collect_globalRulesDetails analyzed)"
  shows "global_rowValue (map fst analyzed) (rule, targetHash)
           = rule @ concat (map (\<lambda>(target, rulesDetails). zero_cell (map_of rulesDetails rule)) analyzed)"
proof -
  let ?g = "collect_globalRulesDetails analyzed"
  have dg: "distinct (map fst ?g)"
    unfolding collect_globalRulesDetails_from by (rule collect_from_distinct) simp
  then have look: "map_of ?g rule = Some targetHash" using mem by simp
  have cell: "map_of targetHash target = map_of rulesDetails rule"
    if "(target, rulesDetails) \<in> set analyzed" for target rulesDetails
  proof -
    have a: "map_of analyzed target = Some rulesDetails" using that d by simp
    have "map_of targetHash target = stored_count ?g rule target"
      using look by (simp add: stored_count_def)
    also have "\<dots> = map_of rulesDetails rule"
      unfolding collect_globalRulesDetails_from collect_from_lookup [OF d dr] a
      by (simp add: stored_count_Nil split: option.splits)
    finally show ?thesis .
  qed
  have "map (\<lambda>target. zero_cell (map_of targetHash target)) (map fst analyzed)
          = map (\<lambda>(target, rulesDetails). zero_cell (map_of rulesDetails rule)) analyzed"
    using cell by (auto simp: case_prod_beta)
  then show ?thesis by (simp only: global_rowValue_cells)
qed

lemma global_rows:
  assumes d: "distinct (map fst analyzed)"
    and dr: "\<forall>(target, rulesDetails) \<in> set analyzed. distinct (map fst rulesDetails)"
    and v: "ranges visited (collect_globalRulesDetails analyzed)"
  shows "map (\<lambda>entry. global_rowValue (map fst analyzed) entry @ [CHR 0x0A]) visited
           = map (\<lambda>rule.
                    rule @ concat (map (\<lambda>(target, rulesDetails).
                                          (case map_of rulesDetails rule of
                                             Some count \<Rightarrow> '','' @ Sprintf_d (int count)
                                           | None \<Rightarrow> '',0''))
                                     analyzed)
                      @ [CHR 0x0A])
               (map fst visited)"
proof -
  have "global_rowValue (map fst analyzed) entry
          = fst entry @ concat (map (\<lambda>(target, rulesDetails).
                                          (case map_of rulesDetails (fst entry) of
                                             Some count \<Rightarrow> '','' @ Sprintf_d (int count)
                                           | None \<Rightarrow> '',0''))
                                     analyzed)"
    if "entry \<in> set visited" for entry
  proof -
    obtain rule targetHash where e: "entry = (rule, targetHash)" by (cases entry)
    have "(rule, targetHash) \<in> set (collect_globalRulesDetails analyzed)"
      using that v by (simp add: ranges_def e)
    from global_row_of_rule [OF d dr this] show ?thesis by (simp add: e zero_cell_def)
  qed
  then show ?thesis by simp
qed

lemma full_rows:
  "map (\<lambda>(rule, sofar). full_rowValue targetList fullIncidentDetails rule @ [CHR 0x0A]) visited
     = map (\<lambda>rule.
              rule @ concat (map (\<lambda>target.
                                    (case map_of fullIncidentDetails target of
                                       Some targetHash \<Rightarrow>
                                         (case map_of targetHash rule of
                                            Some count \<Rightarrow> '','' @ Sprintf_d (int count)
                                          | None \<Rightarrow> '', '')
                                     | None \<Rightarrow> '', ''))
                               targetList)
                @ [CHR 0x0A])
         (map fst visited)"
proof -
  have "blank_cell (case map_of fullIncidentDetails target of
                      None \<Rightarrow> None | Some targetHash \<Rightarrow> map_of targetHash rule)
          = (case map_of fullIncidentDetails target of
               Some targetHash \<Rightarrow>
                 (case map_of targetHash rule of
                    Some count \<Rightarrow> '','' @ Sprintf_d (int count)
                  | None \<Rightarrow> '', '')
             | None \<Rightarrow> '', '')" for target rule
    by (simp add: blank_cell_def split: option.splits)
  then show ?thesis by (simp add: full_rowValue_cells case_prod_beta)
qed

lemma ex_analyzed_distinct: "distinct (map fst ex_analyzed)"
  by (simp add: ex_analyzed_def)

lemma ex_analyzed_rules: "\<forall>(target, rulesDetails) \<in> set ex_analyzed. distinct (map fst rulesDetails)"
  by (simp add: ex_analyzed_def)

lemma ex_global_rows:
  "(''Rule,'' @ strings_Join (map fst ex_analyzed) '','' @ [CHR 0x0A])
     # map (\<lambda>rule.
              rule @ concat (map (\<lambda>(target, rulesDetails).
                                    (case map_of rulesDetails rule of
                                       Some count \<Rightarrow> '','' @ Sprintf_d (int count)
                                     | None \<Rightarrow> '',0''))
                               ex_analyzed)
                @ [CHR 0x0A])
         (map fst (rev (collect_globalRulesDetails ex_analyzed)))
   = [''Rule,proj1,proj2'' @ [CHR 0x0A], ''xss,0,1'' @ [CHR 0x0A], ''sql-injection,3,0'' @ [CHR 0x0A]]"
  by code_simp

lemma ex_full_rows:
  "(''Rule,'' @ strings_Join [''proj1'', ''proj2''] '','' @ [CHR 0x0A])
     # map (\<lambda>rule.
              rule @ concat (map (\<lambda>target.
                                    (case map_of ex_analyzed target of
                                       Some targetHash \<Rightarrow>
                                         (case map_of targetHash rule of
                                            Some count \<Rightarrow> '','' @ Sprintf_d (int count)
                                          | None \<Rightarrow> '', '')
                                     | None \<Rightarrow> '', ''))
                               [''proj1'', ''proj2''])
                @ [CHR 0x0A])
         (map fst (rev (collect_rules ex_analyzed)))
   = [''Rule,proj1,proj2'' @ [CHR 0x0A], ''xss, ,1'' @ [CHR 0x0A], ''sql-injection,3, '' @ [CHR 0x0A]]"
  by code_simp

text \<open>
  Claim C7, as the code has it.  For targets each listed once, with rules each listed once,
  and whatever the order in which the last loop visits the rules:

  \<^item> the earlier \<^verbatim>\<open>main\<close> writes the header \<^verbatim>\<open>Rule,\<close> with the targets, and then one row
    for every rule reported by some target, each rule once; the row of a rule is the rule
    followed by one cell per target, in the order of the targets: the target's count for
    the rule, or \<open>0\<close> when it reports none;
  \<^item> \<^verbatim>\<open>src/main.go\<close> writes no table unless the total incident count is positive; then it
    writes the same header and one row for every rule reported by some target, each rule
    once; the row of a rule has one cell per target of the target list, in order: the count,
    or a blank when the target reports none or has no counts at all.
\<close>

theorem summary_table_cells:
  assumes "distinct (map fst analyzed)"
    and "\<forall>(target, rulesDetails) \<in> set analyzed. distinct (map fst rulesDetails)"
    and "ranges (visit (collect_globalRulesDetails analyzed)) (collect_globalRulesDetails analyzed)"
    and "ranges (visit' (collect_rules fullIncidentDetails)) (collect_rules fullIncidentDetails)"
  shows "global_summary visit (map fst analyzed) (collect_globalRulesDetails analyzed)
           = (''Rule,'' @ strings_Join (map fst analyzed) '','' @ [CHR 0x0A])
               # map (\<lambda>rule.
                        rule @ concat (map (\<lambda>(target, rulesDetails).
                                              (case map_of rulesDetails rule of
                                                 Some count \<Rightarrow> '','' @ Sprintf_d (int count)
                                               | None \<Rightarrow> '',0''))
                                         analyzed)
                          @ [CHR 0x0A])
                   (map fst (visit (collect_globalRulesDetails analyzed)))
       \<and> distinct (map fst (visit (collect_globalRulesDetails analyzed)))
       \<and> set (map fst (visit (collect_globalRulesDetails analyzed)))
            = (\<Union>(target, rulesDetails) \<in> set analyzed. fst ` set rulesDetails)
       \<and> full_summary visit' fullIncidentsCount targetList fullIncidentDetails
           = (if 0 < fullIncidentsCount then
                Some ((''Rule,'' @ strings_Join targetList '','' @ [CHR 0x0A])
                      # map (\<lambda>rule.
                               rule @ concat (map (\<lambda>target.
                                                     (case map_of fullIncidentDetails target of
                                                        Some targetHash \<Rightarrow>
                                                          (case map_of targetHash rule of
                                                             Some count \<Rightarrow> '','' @ Sprintf_d (int count)
                                                           | None \<Rightarrow> '', '')
                                                      | None \<Rightarrow> '', ''))
                                                targetList)
                                 @ [CHR 0x0A])
                          (map fst (visit' (collect_rules fullIncidentDetails))))
              else None)
       \<and> distinct (map fst (visit' (collect_rules fullIncidentDetails)))
       \<and> set (map fst (visit' (collect_rules fullIncidentDetails)))
            = (\<Union>(target, targetHash) \<in> set fullIncidentDetails. fst ` set targetHash)"
proof -
  let ?g = "collect_globalRulesDetails analyzed"
  let ?r = "collect_rules fullIncidentDetails"
  have dg: "distinct (map fst ?g)"
    unfolding collect_globalRulesDetails_from by (rule collect_from_distinct) simp
  have kg: "fst ` set ?g = (\<Union>(target, rulesDetails) \<in> set analyzed. fst ` set rulesDetails)"
    unfolding collect_globalRulesDetails_from collect_from_keys by simp
  have 1: "global_summary visit (map fst analyzed) ?g
           = (''Rule,'' @ strings_Join (map fst analyzed) '','' @ [CHR 0x0A])
               # map (\<lambda>rule.
                        rule @ concat (map (\<lambda>(target, rulesDetails).
                                              (case map_of rulesDetails rule of
                                                 Some count \<Rightarrow> '','' @ Sprintf_d (int count)
                                               | None \<Rightarrow> '',0''))
                                         analyzed)
                          @ [CHR 0x0A])
                   (map fst (visit ?g))"
    unfolding global_summary_def global_rows [OF assms(1) assms(2) assms(3)] by (rule refl)
  have 2: "distinct (map fst (visit ?g))" by (rule ranges_keys(2) [OF assms(3) dg])
  have 3: "set (map fst (visit ?g))
            = (\<Union>(target, rulesDetails) \<in> set analyzed. fst ` set rulesDetails)"
    using ranges_keys(1) [OF assms(3) dg] kg by simp
  have dr: "distinct (map fst ?r)"
    unfolding collect_rules_from_empty by (rule collect_rules_from_distinct) simp
  have kr: "fst ` set ?r = (\<Union>(target, targetHash) \<in> set fullIncidentDetails. fst ` set targetHash)"
    unfolding collect_rules_from_empty collect_rules_from_keys by simp
  have 4: "full_summary visit' fullIncidentsCount targetList fullIncidentDetails
           = (if 0 < fullIncidentsCount then
                Some ((''Rule,'' @ strings_Join targetList '','' @ [CHR 0x0A])
                      # map (\<lambda>rule.
                               rule @ concat (map (\<lambda>target.
                                                     (case map_of fullIncidentDetails target of
                                                        Some targetHash \<Rightarrow>
                                                          (case map_of targetHash rule of
                                                             Some count \<Rightarrow> '','' @ Sprintf_d (int count)
                                                           | None \<Rightarrow> '', '')
                                                      | None \<Rightarrow> '', ''))
                                                targetList)
                                 @ [CHR 0x0A])
                          (map fst (visit' ?r)))
              else None)"
    unfolding full_summary_def full_rows by (rule refl)
  have 5: "distinct (map fst (visit' ?r))" by (rule ranges_keys(2) [OF assms(4) dr])
  have 6: "set (map fst (visit' ?r))
            = (\<Union>(target, targetHash) \<in> set fullIncidentDetails. fst ` set targetHash)"
    using ranges_keys(1) [OF assms(4) dr] kr by simp
  show ?thesis using 1 2 3 4 5 6 by (intro conjI)
qed

theorem summary_table_cells_witness:
  "distinct (map fst ex_analyzed)
   \<and> list_all (\<lambda>(target, rulesDetails). distinct (map fst rulesDetails)) ex_analyzed
   \<and> ranges (rev (collect_globalRulesDetails ex_analyzed)) (collect_globalRulesDetails ex_analyzed)
   \<and> ranges (rev (collect_rules ex_analyzed)) (collect_rules ex_analyzed)
   \<and> global_summary rev (map fst ex_analyzed) (collect_globalRulesDetails ex_analyzed)
        = [''Rule,proj1,proj2'' @ [CHR 0x0A], ''xss,0,1'' @ [CHR 0x0A],
           ''sql-injection,3,0'' @ [CHR 0x0A]]
   \<and> full_summary rev 4 [''proj1'', ''proj2''] ex_analyzed
        = Some [''Rule,proj1,proj2'' @ [CHR 0x0A], ''xss, ,1'' @ [CHR 0x0A],
                ''sql-injection,3, '' @ [CHR 0x0A]]
   \<and> full_summary rev 0 [''proj1'', ''proj2''] ex_analyzed = None"
proof -
  note t = summary_table_cells [where analyzed = ex_analyzed and visit = rev and visit' = rev
      and fullIncidentDetails = ex_analyzed and targetList = "[''proj1'', ''proj2'']",
      OF ex_analyzed_distinct ex_analyzed_rules ranges_rev ranges_rev]
  have all: "list_all (\<lambda>(target, rulesDetails). distinct (map fst rulesDetails)) ex_analyzed"
    by (simp add: ex_analyzed_def)
  have g: "global_summary rev (map fst ex_analyzed) (collect_globalRulesDetails ex_analyzed)
        = [''Rule,proj1,proj2'' @ [CHR 0x0A], ''xss,0,1'' @ [CHR 0x0A],
           ''sql-injection,3,0'' @ [CHR 0x0A]]"
    using t [THEN conjunct1] ex_global_rows by (rule trans)
  have f: "full_summary rev 4 [''proj1'', ''proj2''] ex_analyzed
        = Some [''Rule,proj1,proj2'' @ [CHR 0x0A], ''xss, ,1'' @ [CHR 0x0A],
                ''sql-injection,3, '' @ [CHR 0x0A]]"
    using t [where fullIncidentsCount = 4, THEN conjunct2, THEN conjunct2, THEN conjunct2, THEN conjunct1] ex_full_rows
    by simp
  have n: "full_summary rev 0 [''proj1'', ''proj2''] ex_analyzed = None"
    using t [where fullIncidentsCount = 0, THEN conjunct2, THEN conjunct2, THEN conjunct2, THEN conjunct1]
    by simp
  show ?thesis
    using ex_analyzed_distinct all ranges_rev [of "collect_globalRulesDetails ex_analyzed"]
      ranges_rev [of "collect_rules ex_analyzed"] g f n
    by (intro conjI)
qed

text \<open>
  The claim as the specification words it fails on the table of \<^verbatim>\<open>src/main.go\<close>.  Of two
  projects only \<open>proj1\<close> reports the one rule \<open>sql-injection\<close>, so the table has one row
  whatever the order of the loop, and in it the cell of \<open>proj2\<close> is a blank, not \<open>0\<close>.
\<close>

theorem blank_not_zero_counterexample:
  "map_of ex_one_rule ''proj2'' = Some []
   \<and> collect_rules ex_one_rule = [(''sql-injection'', 3)]
   \<and> full_summary (\<lambda>rules. rules) 3 [''proj1'', ''proj2''] ex_one_rule
       = Some [''Rule,proj1,proj2'' @ [CHR 0x0A], ''sql-injection,3, '' @ [CHR 0x0A]]
   \<and> full_summary rev 3 [''proj1'', ''proj2''] ex_one_rule
       = Some [''Rule,proj1,proj2'' @ [CHR 0x0A], ''sql-injection,3, '' @ [CHR 0x0A]]"
  by code_simp

end
